theory Spec2Isabelle
  imports
    Main
    "HOL-Library.Multiset"
    "HOL-Library.AList"
    "HOL-Library.Char_ord"
    "HOL-Library.List_Lexorder"
    "HOL-Library.Product_Lexorder"
begin

section \<open>Data model\<close>

text \<open>
  A Go \<^verbatim>\<open>error\<close> value: one constructor for each \<^verbatim>\<open>fmt.Errorf\<close> of the source, and
  \<open>BackendError\<close> for an error that a collaborator (backend repository, draft, function
  runner) returns. A function returning \<^verbatim>\<open>(T, error)\<close> becomes a function into
  \<open>error + T\<close>, with \<open>Inl\<close> for a non-nil error.
\<close>

type_synonym TaskType = string

datatype error =
    BackendError string
  | NotSetForTask string TaskType
  | PatchNotSupportedOnCreate
  | TaskTypeNotSupported TaskType
  | AddingRemovingTasksNotSupported
  | ChangingTaskTypesNotSupported
  | CloneOnlyFirstTask
  | UpdatingTaskNotSupported TaskType
  | CannotGetPackageResources error

text \<open>
  An unchecked type assertion \<^verbatim>\<open>x.(*T)\<close> panics when the dynamic type of \<open>x\<close> is not
  \<^verbatim>\<open>*T\<close>; a call either panics or returns.
\<close>

datatype 'a outcome = Panic | Return 'a

record PackageRevisionKey =
  Package :: string
  Revision :: string

text \<open>
  \<^verbatim>\<open>v1alpha1.PackageRevisionLifecycle\<close> is a string type; the sort of the listing compares
  it as a string. Its declaration is in the api package; the value of the constant is the
  lifecycle name.
\<close>

type_synonym PackageRevisionLifecycle = string

definition PackageRevisionLifecyclePublished :: PackageRevisionLifecycle where
  "PackageRevisionLifecyclePublished = ''Published''"

text \<open>A package's file contents: a Go \<^verbatim>\<open>map[string]string\<close>, as an association list whose
  order is the order in which a \<^verbatim>\<open>range\<close> loop visits the entries.\<close>

type_synonym contents = "(string \<times> string) list"

text \<open>
  \<^verbatim>\<open>repository.PackageRevision\<close> is an interface of the backends; a value of it is what its
  methods return.
\<close>

record PackageRevision =
  Key :: PackageRevisionKey
  Lifecycle :: PackageRevisionLifecycle
  KubeObjectName :: string
  GetResources :: "error + contents"

record cachedPackageRevision =
  PackageRevision :: PackageRevision
  isLatestRevision :: bool

text \<open>The methods of the embedded interface are promoted to the cached revision.\<close>

abbreviation cKey :: "cachedPackageRevision \<Rightarrow> PackageRevisionKey" where
  "cKey c \<equiv> Key (PackageRevision c)"

abbreviation cLifecycle :: "cachedPackageRevision \<Rightarrow> PackageRevisionLifecycle" where
  "cLifecycle c \<equiv> Lifecycle (PackageRevision c)"

abbreviation cKubeObjectName :: "cachedPackageRevision \<Rightarrow> string" where
  "cKubeObjectName c \<equiv> KubeObjectName (PackageRevision c)"

text \<open>
  The package half of \<^verbatim>\<open>cachedRepository\<close>: the cached list and the error of the last
  refresh, both guarded by the mutex. A nil slice is \<open>None\<close>: the cache is not loaded. A
  nil error is \<open>None\<close>. The function list (\<^verbatim>\<open>cachedFunctions\<close>, filled by
  \<^verbatim>\<open>getFunctions\<close>) is independent of both and is left out.
\<close>

record cachedRepository =
  cachedPackages :: "cachedPackageRevision list option"
  refreshError :: "error option"

text \<open>A \<^verbatim>\<open>range\<close> loop over a nil slice visits nothing.\<close>

definition elems :: "'a list option \<Rightarrow> 'a list" where
  "elems s = (case s of None \<Rightarrow> [] | Some xs \<Rightarrow> xs)"

text \<open>\<^verbatim>\<open>repository.ListPackageRevisionFilter\<close>, by its \<^verbatim>\<open>Matches\<close> method.\<close>

type_synonym ListPackageRevisionFilter = "cachedPackageRevision \<Rightarrow> bool"

section \<open>The repository cache\<close>

subsection \<open>updateOrAppend\<close>

fun updateOrAppend :: "cachedPackageRevision list \<Rightarrow> cachedPackageRevision \<Rightarrow> cachedPackageRevision list" where
  "updateOrAppend [] new = [new]"
| "updateOrAppend (cached # revisions) new =
     (if cKubeObjectName cached = cKubeObjectName new then new # revisions
      else cached # updateOrAppend revisions new)"

subsection \<open>identifyLatestRevisions\<close>

text \<open>
  The map \<^verbatim>\<open>latest\<close> holds pointers into the slice; a pointer is the index of the entry it
  points to. One iteration of the first loop, at index \<open>i\<close>; \<open>cmp\<close> and \<open>valid\<close> are
  \<^verbatim>\<open>semver.Compare\<close> and \<^verbatim>\<open>semver.IsValid\<close> of golang.org/x/mod. The loop visits the
  indices below the length of the slice, and the map holds only indices visited before, so
  every read of the slice is in range.
\<close>

definition latestStep ::
  "(string \<Rightarrow> string \<Rightarrow> int) \<Rightarrow> (string \<Rightarrow> bool) \<Rightarrow> cachedPackageRevision list \<Rightarrow>
   (string \<times> nat) list \<Rightarrow> nat \<Rightarrow> (string \<times> nat) list" where
  "latestStep cmp valid result latest i =
     (let current = result ! i in
      if cLifecycle current \<noteq> PackageRevisionLifecyclePublished then latest
      else
        let currentKey = cKey current in
        case map_of latest (Package currentKey) of
          Some j \<Rightarrow>
            (let previousKey = cKey (result ! j);
                 c = cmp (Revision currentKey) (Revision previousKey) in
             if c = 0 then latest
             else if c < 0 then latest
             else AList.update (Package currentKey) i latest)
        | None \<Rightarrow>
            if valid (Revision currentKey) then AList.update (Package currentKey) i latest
            else latest)"

definition latestAfter ::
  "(string \<Rightarrow> string \<Rightarrow> int) \<Rightarrow> (string \<Rightarrow> bool) \<Rightarrow> cachedPackageRevision list \<Rightarrow>
   nat \<Rightarrow> (string \<times> nat) list" where
  "latestAfter cmp valid result n = foldl (latestStep cmp valid result) [] [0..<n]"

text \<open>The first loop clears every flag; the second sets it on the entries the map points to.\<close>

definition identifyLatestRevisions ::
  "(string \<Rightarrow> string \<Rightarrow> int) \<Rightarrow> (string \<Rightarrow> bool) \<Rightarrow> cachedPackageRevision list \<Rightarrow>
   cachedPackageRevision list" where
  "identifyLatestRevisions cmp valid result =
     (let latest = latestAfter cmp valid result (length result) in
      map (\<lambda>i. (result ! i)\<lparr>isLatestRevision := (i \<in> snd ` set latest)\<rparr>) [0..<length result])"

definition toCachedPackageRevisionSlice ::
  "(string \<Rightarrow> string \<Rightarrow> int) \<Rightarrow> (string \<Rightarrow> bool) \<Rightarrow> PackageRevision list \<Rightarrow>
   cachedPackageRevision list" where
  "toCachedPackageRevisionSlice cmp valid revisions =
     identifyLatestRevisions cmp valid
       (map (\<lambda>r. \<lparr>PackageRevision = r, isLatestRevision = False\<rparr>) revisions)"

subsection \<open>toPackageRevisionSlice\<close>

text \<open>\<^verbatim>\<open>strings.Compare\<close>: the bytewise lexicographic comparison of two strings.\<close>

definition strings_Compare :: "string \<Rightarrow> string \<Rightarrow> int" where
  "strings_Compare a b = (if a < b then - 1 else if a = b then 0 else 1)"

text \<open>The closure handed to \<^verbatim>\<open>sort.Slice\<close>.\<close>

definition lessRevision :: "cachedPackageRevision \<Rightarrow> cachedPackageRevision \<Rightarrow> bool" where
  "lessRevision ri rj =
     (let ki = cKey ri; kl = cKey rj in
      if strings_Compare (Package ki) (Package kl) < 0 then True
      else if strings_Compare (Package ki) (Package kl) > 0 then False
      else if strings_Compare (Revision ki) (Revision kl) < 0 then True
      else if strings_Compare (Revision ki) (Revision kl) > 0 then False
      else if strings_Compare (cLifecycle ri) (cLifecycle rj) < 0 then True
      else if strings_Compare (cLifecycle ri) (cLifecycle rj) > 0 then False
      else strings_Compare (cKubeObjectName ri) (cKubeObjectName rj) < 0)"

text \<open>\<open>srt\<close> is \<^verbatim>\<open>sort.Slice\<close> of the Go library.\<close>

definition toPackageRevisionSlice ::
  "((cachedPackageRevision \<Rightarrow> cachedPackageRevision \<Rightarrow> bool) \<Rightarrow> cachedPackageRevision list \<Rightarrow> cachedPackageRevision list) \<Rightarrow>
   cachedPackageRevision list option \<Rightarrow> ListPackageRevisionFilter \<Rightarrow> cachedPackageRevision list" where
  "toPackageRevisionSlice srt cached flt = srt lessRevision (filter flt (elems cached))"

subsection \<open>getPackages\<close>

text \<open>
  \<open>backend\<close> is what \<^verbatim>\<open>r.repo.ListPackageRevisions\<close> returns if it is called. The
  \<^verbatim>\<open>p, err := ...\<close> of the inner block declares a new \<^verbatim>\<open>err\<close> (\<open>err'\<close> here): it is the
  one stored in \<^verbatim>\<open>refreshError\<close>, and the test after the block reads the outer \<^verbatim>\<open>err\<close>,
  copied from \<^verbatim>\<open>refreshError\<close> at entry.
\<close>

definition getPackages ::
  "(string \<Rightarrow> string \<Rightarrow> int) \<Rightarrow> (string \<Rightarrow> bool) \<Rightarrow>
   ((cachedPackageRevision \<Rightarrow> cachedPackageRevision \<Rightarrow> bool) \<Rightarrow> cachedPackageRevision list \<Rightarrow> cachedPackageRevision list) \<Rightarrow>
   cachedRepository \<Rightarrow> (error + PackageRevision list) \<Rightarrow> ListPackageRevisionFilter \<Rightarrow> bool \<Rightarrow>
   (error + cachedPackageRevision list) \<times> cachedRepository" where
  "getPackages cmp valid srt r backend flt forceRefresh =
     (let packages0 = cachedPackages r;
          err = refreshError r;
          packages1 = (if forceRefresh then None else packages0);
          (packages, r') =
            (case packages1 of
               None \<Rightarrow>
                 (let (packages2, err') =
                        (case backend of
                           Inr p \<Rightarrow> (Some (toCachedPackageRevisionSlice cmp valid p), None)
                         | Inl e \<Rightarrow> (None, Some e))
                  in (packages2, r\<lparr>cachedPackages := packages2, refreshError := err'\<rparr>))
             | Some ps \<Rightarrow> (Some ps, r))
      in case err of
           Some e \<Rightarrow> (Inl e, r')
         | None \<Rightarrow> (Inr (toPackageRevisionSlice srt packages flt), r'))"

text \<open>\<^verbatim>\<open>pollOnce\<close> forces a reload of the packages with the empty filter and logs the
  error it gets back; what remains of the call is the state of the cache.\<close>

definition pollOnce ::
  "(string \<Rightarrow> string \<Rightarrow> int) \<Rightarrow> (string \<Rightarrow> bool) \<Rightarrow>
   ((cachedPackageRevision \<Rightarrow> cachedPackageRevision \<Rightarrow> bool) \<Rightarrow> cachedPackageRevision list \<Rightarrow> cachedPackageRevision list) \<Rightarrow>
   cachedRepository \<Rightarrow> (error + PackageRevision list) \<Rightarrow> cachedRepository" where
  "pollOnce cmp valid srt r backend = snd (getPackages cmp valid srt r backend (\<lambda>_. True) True)"

definition ListPackageRevisions ::
  "(string \<Rightarrow> string \<Rightarrow> int) \<Rightarrow> (string \<Rightarrow> bool) \<Rightarrow>
   ((cachedPackageRevision \<Rightarrow> cachedPackageRevision \<Rightarrow> bool) \<Rightarrow> cachedPackageRevision list \<Rightarrow> cachedPackageRevision list) \<Rightarrow>
   cachedRepository \<Rightarrow> (error + PackageRevision list) \<Rightarrow> ListPackageRevisionFilter \<Rightarrow>
   (error + cachedPackageRevision list) \<times> cachedRepository" where
  "ListPackageRevisions cmp valid srt r backend flt = getPackages cmp valid srt r backend flt False"

subsection \<open>update\<close>

text \<open>The new state of the cache; the pointer that \<^verbatim>\<open>update\<close> returns is the entry for
  \<open>closed\<close> in the new list.\<close>

definition update ::
  "(string \<Rightarrow> string \<Rightarrow> int) \<Rightarrow> (string \<Rightarrow> bool) \<Rightarrow> cachedRepository \<Rightarrow> PackageRevision \<Rightarrow> cachedRepository" where
  "update cmp valid r closed =
     (let cached = \<lparr>PackageRevision = closed, isLatestRevision = False\<rparr> in
      r\<lparr>cachedPackages :=
          Some (identifyLatestRevisions cmp valid (updateOrAppend (elems (cachedPackages r)) cached))\<rparr>)"

subsection \<open>UpdatePackage and DeletePackageRevision\<close>

text \<open>
  The dynamic type of a \<^verbatim>\<open>repository.PackageRevision\<close> interface value: the cache's own
  \<^verbatim>\<open>*cachedPackageRevision\<close>, the revision type of a backend, or the nil interface.
\<close>

datatype PackageRevisionValue =
    CachedRevision cachedPackageRevision
  | OtherRevision PackageRevision
  | NilRevision

text \<open>The calls that reach the backing repository \<^verbatim>\<open>r.repo\<close>.\<close>

datatype backendCall =
    RepoUpdatePackage PackageRevision
  | RepoDeletePackageRevision PackageRevision

text \<open>
  \<open>repoUpdatePackage\<close> is \<^verbatim>\<open>r.repo.UpdatePackage\<close>; the draft it opens is wrapped in a
  \<^verbatim>\<open>cachedDraft\<close> together with the cache.
\<close>

definition UpdatePackage ::
  "cachedRepository \<Rightarrow> (PackageRevision \<Rightarrow> error + 'd) \<Rightarrow> PackageRevisionValue \<Rightarrow>
   (error + 'd) outcome \<times> backendCall list" where
  "UpdatePackage r repoUpdatePackage old =
     (case old of
        CachedRevision c \<Rightarrow>
          (let unwrapped = PackageRevision c in
           case repoUpdatePackage unwrapped of
             Inl err \<Rightarrow> (Return (Inl err), [RepoUpdatePackage unwrapped])
           | Inr created \<Rightarrow> (Return (Inr created), [RepoUpdatePackage unwrapped]))
      | OtherRevision _ \<Rightarrow> (Panic, [])
      | NilRevision \<Rightarrow> (Panic, []))"

definition DeletePackageRevision ::
  "cachedRepository \<Rightarrow> (PackageRevision \<Rightarrow> error option) \<Rightarrow> PackageRevisionValue \<Rightarrow>
   (error option) outcome \<times> cachedRepository \<times> backendCall list" where
  "DeletePackageRevision r repoDeletePackageRevision old =
     (case old of
        CachedRevision c \<Rightarrow>
          (let unwrapped = PackageRevision c in
           case repoDeletePackageRevision unwrapped of
             Some err \<Rightarrow> (Return (Some err), r, [RepoDeletePackageRevision unwrapped])
           | None \<Rightarrow>
               (Return None, r\<lparr>cachedPackages := None\<rparr>, [RepoDeletePackageRevision unwrapped]))
      | OtherRevision _ \<Rightarrow> (Panic, r, [])
      | NilRevision \<Rightarrow> (Panic, r, []))"

section \<open>The mutation engine\<close>

subsection \<open>Tasks and mutations\<close>

text \<open>The task types of the api package; \<^verbatim>\<open>mutationReplaceResources.Apply\<close> writes the
  patch type as the literal \<^verbatim>\<open>"patch"\<close>.\<close>

definition TaskTypeClone :: TaskType where "TaskTypeClone = ''clone''"
definition TaskTypePatch :: TaskType where "TaskTypePatch = ''patch''"
definition TaskTypeEval :: TaskType where "TaskTypeEval = ''eval''"

text \<open>
  The payloads of a task are declared in the api package; the fields kept are those the
  source reads. \<^verbatim>\<open>reflect.DeepEqual\<close> tells a nil slice, map or pointer from an empty one,
  so each such field holds nil as \<open>None\<close>, and two tasks are deeply equal exactly when
  they are equal.
\<close>

record GitPackage =
  Ref :: string
  Directory :: string

record UpstreamPackage =
  Git :: "GitPackage option"

record PackageCloneTaskSpec =
  Upstream :: UpstreamPackage

record PackagePatchTaskSpec =
  Patches :: "string list option"

record FunctionEvalTaskSpec =
  Image :: string
  ConfigMap :: "(string \<rightharpoonup> string) option"

text \<open>The payloads are pointers: nil is \<open>None\<close>.\<close>

record Task =
  Type :: TaskType
  Clone :: "PackageCloneTaskSpec option"
  Patch :: "PackagePatchTaskSpec option"
  Eval :: "FunctionEvalTaskSpec option"

text \<open>The implementations of the \<^verbatim>\<open>mutation\<close> interface, with their fields (the renderer
  and the function runner are the engine's).\<close>

datatype mutation =
    clonePackageMutation Task string
  | evalFunctionMutation Task
  | renderPackageMutation
  | updatePackageMutation Task
  | mutationReplaceResources contents contents

text \<open>
  \<^verbatim>\<open>mutationReplaceResources.Apply\<close>: \<open>new\<close> is \<^verbatim>\<open>m.newResources.Spec.Resources\<close> and
  \<open>resources\<close> the input snapshot. The first loop ranges over \<open>new\<close>, the second over the
  input snapshot. \<^verbatim>\<open>patch.Patches\<close> starts as the nil slice and stays nil when no path is
  appended.
\<close>

definition replaceResourcesApply :: "contents \<Rightarrow> contents \<Rightarrow> contents \<times> Task option" where
  "replaceResourcesApply new resources =
     (let old = resources;
          patches1 = map fst (filter (\<lambda>(k, newV).
                       case map_of old k of None \<Rightarrow> True | Some oldV \<Rightarrow> newV \<noteq> oldV) new);
          patches2 = map fst (filter (\<lambda>(k, _). map_of new k = None) old);
          patches = patches1 @ patches2;
          task = \<lparr>Type = ''patch'', Clone = None,
                  Patch = Some \<lparr>Patches = (if patches = [] then None else Some patches)\<rparr>,
                  Eval = None\<rparr>
      in (new, Some task))"

text \<open>
  \<^verbatim>\<open>Apply\<close> of a mutation. The other mutations run collaborators (the upstream fetch,
  \<^verbatim>\<open>kpt.PkgUpdate\<close> on a scratch directory, the function runner, the renderer): \<open>ext\<close> is
  what they return.
\<close>

definition Apply ::
  "(mutation \<Rightarrow> contents \<Rightarrow> error + contents \<times> Task option) \<Rightarrow> mutation \<Rightarrow> contents \<Rightarrow>
   error + contents \<times> Task option" where
  "Apply ext m resources =
     (case m of
        mutationReplaceResources new old \<Rightarrow> Inr (replaceResourcesApply new resources)
      | _ \<Rightarrow> ext m resources)"

subsection \<open>The collaborators of the engine and the calls it makes\<close>

text \<open>
  What the collaborators return: opening the repository through the cache, the two calls
  that open a Draft, the mutations that run outside, and the two methods of a Draft, whose
  state is \<open>'d\<close>.
\<close>

record 'd collaborators =
  openRepository :: "error option"
  repoCreatePackageRevision :: "error + 'd"
  repoUpdatePackage :: "error + 'd"
  applyExternal :: "mutation \<Rightarrow> contents \<Rightarrow> error + contents \<times> Task option"
  draftUpdateResources :: "'d \<Rightarrow> contents \<Rightarrow> Task option \<Rightarrow> error + 'd"
  draftClose :: "'d \<Rightarrow> error + PackageRevision"

datatype call =
    CallOpenRepository
  | CallCreatePackageRevision
  | CallUpdatePackage
  | CallGetResources
  | CallApply mutation contents
  | CallUpdateResources contents "Task option"
  | CallClose

subsection \<open>updateDraft\<close>

fun updateDraft ::
  "'d collaborators \<Rightarrow> 'd \<Rightarrow> contents \<Rightarrow> mutation list \<Rightarrow> (error + PackageRevision) \<times> call list" where
  "updateDraft env draft baseResources [] = (draftClose env draft, [CallClose])"
| "updateDraft env draft baseResources (m # mutations) =
     (case Apply (applyExternal env) m baseResources of
        Inl err \<Rightarrow> (Inl err, [CallApply m baseResources])
      | Inr (applied, task) \<Rightarrow>
          (case draftUpdateResources env draft applied task of
             Inl err \<Rightarrow> (Inl err, [CallApply m baseResources, CallUpdateResources applied task])
           | Inr draft' \<Rightarrow>
               (let (res, calls) = updateDraft env draft' applied mutations
                in (res, CallApply m baseResources # CallUpdateResources applied task # calls))))"

subsection \<open>CreatePackageRevision\<close>

text \<open>The loop over \<^verbatim>\<open>obj.Spec.Tasks\<close>; \<open>name\<close> is \<^verbatim>\<open>obj.Spec.PackageName\<close>.\<close>

fun createTasks :: "Task list \<Rightarrow> string \<Rightarrow> mutation list \<Rightarrow> error + mutation list" where
  "createTasks [] name mutations = Inr mutations"
| "createTasks (task # tasks) name mutations =
     (if Type task = TaskTypeClone then
        (if Clone task = None then Inl (NotSetForTask ''clone'' (Type task))
         else createTasks tasks name (mutations @ [clonePackageMutation task name]))
      else if Type task = TaskTypePatch then
        (if Patch task = None then Inl (NotSetForTask ''patch'' (Type task))
         else Inl PatchNotSupportedOnCreate)
      else if Type task = TaskTypeEval then
        (if Eval task = None then Inl (NotSetForTask ''eval'' (Type task))
         else createTasks tasks name (mutations @ [evalFunctionMutation task]))
      else Inl (TaskTypeNotSupported (Type task)))"

definition CreatePackageRevision ::
  "'d collaborators \<Rightarrow> Task list \<Rightarrow> string \<Rightarrow> (error + PackageRevision) \<times> call list" where
  "CreatePackageRevision env tasks name =
     (case openRepository env of
        Some err \<Rightarrow> (Inl err, [CallOpenRepository])
      | None \<Rightarrow>
          (case repoCreatePackageRevision env of
             Inl err \<Rightarrow> (Inl err, [CallOpenRepository, CallCreatePackageRevision])
           | Inr draft \<Rightarrow>
               (case createTasks tasks name [] of
                  Inl err \<Rightarrow> (Inl err, [CallOpenRepository, CallCreatePackageRevision])
                | Inr mutations \<Rightarrow>
                    (let mutations' = mutations @ [renderPackageMutation];
                         baseResources = [];
                         (res, calls) = updateDraft env draft baseResources mutations'
                     in (res, CallOpenRepository # CallCreatePackageRevision # calls)))))"

subsection \<open>UpdatePackageRevision\<close>

text \<open>The loop over the paired tasks, from index \<open>i\<close>. \<^verbatim>\<open>reflect.DeepEqual\<close> of the two
  task pointers compares the tasks field by field, nil apart from empty: it is equality of
  the two \<open>Task\<close> values.\<close>

fun updateTasks :: "(Task \<times> Task) list \<Rightarrow> nat \<Rightarrow> mutation list \<Rightarrow> error + mutation list" where
  "updateTasks [] i mutations = Inr mutations"
| "updateTasks ((oldTask, newTask) # rest) i mutations =
     (if Type oldTask \<noteq> Type newTask then Inl ChangingTaskTypesNotSupported
      else if oldTask = newTask then updateTasks rest (Suc i) mutations
      else if Type newTask = TaskTypeClone then
        (if Clone newTask = None then Inl (NotSetForTask ''clone'' (Type newTask))
         else if i \<noteq> 0 then Inl CloneOnlyFirstTask
         else updateTasks rest (Suc i) (mutations @ [updatePackageMutation newTask]))
      else Inl (UpdatingTaskNotSupported (Type newTask)))"

definition UpdatePackageRevision ::
  "'d collaborators \<Rightarrow> PackageRevision \<Rightarrow> Task list \<Rightarrow> Task list \<Rightarrow>
   (error + PackageRevision) \<times> call list" where
  "UpdatePackageRevision env oldPackage oldTasks newTasks =
     (case openRepository env of
        Some err \<Rightarrow> (Inl err, [CallOpenRepository])
      | None \<Rightarrow>
          if length oldTasks \<noteq> length newTasks
          then (Inl AddingRemovingTasksNotSupported, [CallOpenRepository])
          else
            (case updateTasks (zip oldTasks newTasks) 0 [] of
               Inl err \<Rightarrow> (Inl err, [CallOpenRepository])
             | Inr mutations \<Rightarrow>
                 (let mutations' = mutations @ [renderPackageMutation] in
                  case repoUpdatePackage env of
                    Inl err \<Rightarrow> (Inl err, [CallOpenRepository, CallUpdatePackage])
                  | Inr draft \<Rightarrow>
                      (case GetResources oldPackage of
                         Inl err \<Rightarrow>
                           (Inl (CannotGetPackageResources err),
                            [CallOpenRepository, CallUpdatePackage, CallGetResources])
                       | Inr resources \<Rightarrow>
                           (let (res, calls) = updateDraft env draft resources mutations'
                            in (res, CallOpenRepository # CallUpdatePackage # CallGetResources # calls))))))"

subsection \<open>UpdatePackageResources\<close>

definition UpdatePackageResources ::
  "'d collaborators \<Rightarrow> PackageRevision \<Rightarrow> contents \<Rightarrow> contents \<Rightarrow>
   (error + PackageRevision) \<times> call list" where
  "UpdatePackageResources env oldPackage old new =
     (case openRepository env of
        Some err \<Rightarrow> (Inl err, [CallOpenRepository])
      | None \<Rightarrow>
          (case repoUpdatePackage env of
             Inl err \<Rightarrow> (Inl err, [CallOpenRepository, CallUpdatePackage])
           | Inr draft \<Rightarrow>
               (let mutations = [mutationReplaceResources new old] in
                case GetResources oldPackage of
                  Inl err \<Rightarrow>
                    (Inl (CannotGetPackageResources err),
                     [CallOpenRepository, CallUpdatePackage, CallGetResources])
                | Inr resources \<Rightarrow>
                    (let (res, calls) = updateDraft env draft resources mutations
                     in (res, CallOpenRepository # CallUpdatePackage # CallGetResources # calls)))))"

section \<open>Library contracts and specification-side definitions\<close>

subsection \<open>semver\<close>

text \<open>
  What the documentation of golang.org/x/mod/semver promises of \<^verbatim>\<open>Compare\<close> and
  \<^verbatim>\<open>IsValid\<close>: invalid versions compare equal to each other and less than every valid one,
  and the comparison is a total preorder (the sign flips when the arguments are swapped, and
  "not greater" is transitive).
\<close>

definition semverContract :: "(string \<Rightarrow> string \<Rightarrow> int) \<Rightarrow> (string \<Rightarrow> bool) \<Rightarrow> bool" where
  "semverContract cmp valid \<longleftrightarrow>
     (\<forall>v w. \<not> valid v \<and> \<not> valid w \<longrightarrow> cmp v w = 0) \<and>
     (\<forall>v w. \<not> valid v \<and> valid w \<longrightarrow> cmp v w < 0) \<and>
     (\<forall>v w. cmp w v = - cmp v w) \<and>
     (\<forall>u v w. cmp u v \<le> 0 \<and> cmp v w \<le> 0 \<longrightarrow> cmp u w \<le> 0)"

text \<open>
  For evaluation on concrete inputs: the versions \<^verbatim>\<open>vMAJOR[.MINOR[.PATCH]]\<close> of semver,
  compared numerically; a string with a prerelease or build suffix counts as invalid here.
\<close>

definition isDigit :: "char \<Rightarrow> bool" where
  "isDigit c \<longleftrightarrow> CHR ''0'' \<le> c \<and> c \<le> CHR ''9''"

fun splitDots :: "string \<Rightarrow> string list" where
  "splitDots [] = [[]]"
| "splitDots (c # cs) =
     (if c = CHR ''.'' then [] # splitDots cs
      else (case splitDots cs of [] \<Rightarrow> [[c]] | p # ps \<Rightarrow> (c # p) # ps))"

definition isNumber :: "string \<Rightarrow> bool" where
  "isNumber s \<longleftrightarrow> s \<noteq> [] \<and> list_all isDigit s \<and> (s = ''0'' \<or> hd s \<noteq> CHR ''0'')"

definition numberValue :: "string \<Rightarrow> nat" where
  "numberValue s = foldl (\<lambda>n c. 10 * n + (of_char c - 48)) 0 s"

definition parseNumeric :: "string \<Rightarrow> (nat \<times> nat \<times> nat) option" where
  "parseNumeric v =
     (case v of
        [] \<Rightarrow> None
      | c # rest \<Rightarrow>
          if c \<noteq> CHR ''v'' then None
          else if \<not> list_all isNumber (splitDots rest) then None
          else (case map numberValue (splitDots rest) of
                  [a] \<Rightarrow> Some (a, 0, 0)
                | [a, b] \<Rightarrow> Some (a, b, 0)
                | [a, b, c] \<Rightarrow> Some (a, b, c)
                | _ \<Rightarrow> None))"

definition numericIsValid :: "string \<Rightarrow> bool" where
  "numericIsValid v \<longleftrightarrow> parseNumeric v \<noteq> None"

definition numericCompare :: "string \<Rightarrow> string \<Rightarrow> int" where
  "numericCompare v w =
     (case (parseNumeric v, parseNumeric w) of
        (None, None) \<Rightarrow> 0
      | (None, Some _) \<Rightarrow> - 1
      | (Some _, None) \<Rightarrow> 1
      | (Some a, Some b) \<Rightarrow> (if a < b then - 1 else if a = b then 0 else 1))"

subsection \<open>sort.Slice\<close>

text \<open>
  \<^verbatim>\<open>sort.Slice\<close> is not stable. Given a strict weak ordering it returns a permutation of
  its input in which no element is less than an element before it.
\<close>

definition strictWeakOrder :: "('a \<Rightarrow> 'a \<Rightarrow> bool) \<Rightarrow> bool" where
  "strictWeakOrder lt \<longleftrightarrow>
     (\<forall>a. \<not> lt a a) \<and>
     (\<forall>a b c. lt a b \<and> lt b c \<longrightarrow> lt a c) \<and>
     (\<forall>a b c. \<not> lt a b \<and> \<not> lt b c \<longrightarrow> \<not> lt a c)"

definition sortSliceContract :: "(('a \<Rightarrow> 'a \<Rightarrow> bool) \<Rightarrow> 'a list \<Rightarrow> 'a list) \<Rightarrow> bool" where
  "sortSliceContract srt \<longleftrightarrow>
     (\<forall>lt xs. strictWeakOrder lt \<longrightarrow>
        mset (srt lt xs) = mset xs \<and> sorted_wrt (\<lambda>a b. \<not> lt b a) (srt lt xs))"

text \<open>For evaluation on concrete inputs: insertion sort, one sort that meets the contract.\<close>

fun insertLess :: "('a \<Rightarrow> 'a \<Rightarrow> bool) \<Rightarrow> 'a \<Rightarrow> 'a list \<Rightarrow> 'a list" where
  "insertLess lt x [] = [x]"
| "insertLess lt x (y # ys) = (if lt x y then x # y # ys else y # insertLess lt x ys)"

fun insertionSort :: "('a \<Rightarrow> 'a \<Rightarrow> bool) \<Rightarrow> 'a list \<Rightarrow> 'a list" where
  "insertionSort lt [] = []"
| "insertionSort lt (x # xs) = insertLess lt x (insertionSort lt xs)"

text \<open>The listing order in the spec's words: Package, then Revision, then Lifecycle, then the
  stable object identifier, compared lexicographically.\<close>

definition sortKey :: "cachedPackageRevision \<Rightarrow> string \<times> string \<times> string \<times> string" where
  "sortKey c = (Package (cKey c), Revision (cKey c), cLifecycle c, cKubeObjectName c)"

subsection \<open>The latest revision\<close>

abbreviation published :: "cachedPackageRevision \<Rightarrow> bool" where
  "published c \<equiv> cLifecycle c = PackageRevisionLifecyclePublished"

text \<open>
  The invariant of the first loop of \<^verbatim>\<open>identifyLatestRevisions\<close> after \<open>n\<close> entries: every
  slot of the map points to a Published entry of its package with a valid revision, not less
  than any Published revision of the package seen so far and greater than every earlier one;
  a package without a slot has had no valid Published revision.
\<close>

definition latestInv ::
  "(string \<Rightarrow> string \<Rightarrow> int) \<Rightarrow> (string \<Rightarrow> bool) \<Rightarrow> cachedPackageRevision list \<Rightarrow> nat \<Rightarrow>
   (string \<times> nat) list \<Rightarrow> bool" where
  "latestInv cmp valid result n latest \<longleftrightarrow>
     distinct (map fst latest) \<and>
     (\<forall>p w. map_of latest p = Some w \<longrightarrow>
        w < n \<and> Package (cKey (result ! w)) = p \<and> published (result ! w) \<and>
        valid (Revision (cKey (result ! w))) \<and>
        (\<forall>j<n. published (result ! j) \<and> Package (cKey (result ! j)) = p \<longrightarrow>
           cmp (Revision (cKey (result ! j))) (Revision (cKey (result ! w))) \<le> 0) \<and>
        (\<forall>j<w. published (result ! j) \<and> Package (cKey (result ! j)) = p \<longrightarrow>
           cmp (Revision (cKey (result ! j))) (Revision (cKey (result ! w))) < 0)) \<and>
     (\<forall>p. map_of latest p = None \<longrightarrow>
        (\<forall>j<n. published (result ! j) \<and> Package (cKey (result ! j)) = p \<longrightarrow>
           \<not> valid (Revision (cKey (result ! j)))))"

subsection \<open>The pipeline, step by step\<close>

text \<open>
  One step of the driver in the spec's words: apply the mutation to the current snapshot,
  push the produced snapshot and its task into the Draft, carry the produced snapshot
  forward.
\<close>

definition pipelineStep ::
  "'d collaborators \<Rightarrow> 'd \<times> contents \<Rightarrow> mutation \<Rightarrow> error + 'd \<times> contents" where
  "pipelineStep env dc m =
     (case Apply (applyExternal env) m (snd dc) of
        Inl e \<Rightarrow> Inl e
      | Inr (applied, task) \<Rightarrow>
          (case draftUpdateResources env (fst dc) applied task of
             Inl e \<Rightarrow> Inl e
           | Inr d' \<Rightarrow> Inr (d', applied)))"

text \<open>The Draft and the snapshot after the first \<open>k\<close> mutations, or the first error.\<close>

fun pipelineAfter ::
  "'d collaborators \<Rightarrow> 'd \<Rightarrow> contents \<Rightarrow> mutation list \<Rightarrow> nat \<Rightarrow> error + 'd \<times> contents" where
  "pipelineAfter env d b ms 0 = Inr (d, b)"
| "pipelineAfter env d b ms (Suc k) =
     (case pipelineAfter env d b ms k of
        Inl e \<Rightarrow> Inl e
      | Inr dc \<Rightarrow> pipelineStep env dc (ms ! k))"

text \<open>The calls of step \<open>k\<close>: none when an earlier step failed, else the \<^verbatim>\<open>Apply\<close> on the
  snapshot carried forward and, when it succeeds, the \<^verbatim>\<open>UpdateResources\<close>.\<close>

definition stepCalls ::
  "'d collaborators \<Rightarrow> 'd \<Rightarrow> contents \<Rightarrow> mutation list \<Rightarrow> nat \<Rightarrow> call list" where
  "stepCalls env d b ms k =
     (case pipelineAfter env d b ms k of
        Inl e \<Rightarrow> []
      | Inr dc \<Rightarrow>
          CallApply (ms ! k) (snd dc) #
          (case Apply (applyExternal env) (ms ! k) (snd dc) of
             Inl e \<Rightarrow> []
           | Inr (applied, task) \<Rightarrow> [CallUpdateResources applied task]))"

subsection \<open>Accepted tasks at creation\<close>

definition accepted :: "Task \<Rightarrow> bool" where
  "accepted task \<longleftrightarrow>
     (Type task = TaskTypeClone \<and> Clone task \<noteq> None) \<or>
     (Type task = TaskTypeEval \<and> Eval task \<noteq> None)"

definition taskMutation :: "string \<Rightarrow> Task \<Rightarrow> mutation" where
  "taskMutation name task =
     (if Type task = TaskTypeClone then clonePackageMutation task name
      else evalFunctionMutation task)"

fun isApply :: "call \<Rightarrow> bool" where
  "isApply (CallApply m c) = True"
| "isApply _ = False"

subsection \<open>Collaborators for evaluation on concrete inputs\<close>

text \<open>
  A Draft that records what is pushed into it, in a repository that opens; cloning seeds a
  Kptfile, rendering leaves the snapshot as it is, and the function runner fails.
\<close>

definition closedRevision :: "(contents \<times> Task option) list \<Rightarrow> PackageRevision" where
  "closedRevision d =
     \<lparr>Key = \<lparr>Package = ''foo'', Revision = ''v1''\<rparr>, Lifecycle = ''Draft'',
      KubeObjectName = ''repo-foo-v1'',
      GetResources = Inr (case d of [] \<Rightarrow> [] | _ \<Rightarrow> fst (last d))\<rparr>"

definition recordingCollaborators :: "(contents \<times> Task option) list collaborators" where
  "recordingCollaborators =
     \<lparr>openRepository = None,
      repoCreatePackageRevision = Inr [],
      repoUpdatePackage = Inr [],
      applyExternal = (\<lambda>m resources.
        case m of
          clonePackageMutation task name \<Rightarrow> Inr ([(''Kptfile'', name)], Some task)
        | renderPackageMutation \<Rightarrow> Inr (resources, None)
        | _ \<Rightarrow> Inl (BackendError ''function runner failed'')),
      draftUpdateResources = (\<lambda>d applied task. Inr (d @ [(applied, task)])),
      draftClose = (\<lambda>d. Inr (closedRevision d))\<rparr>"

definition cloneTask :: Task where
  "cloneTask =
     \<lparr>Type = ''clone'',
      Clone = Some \<lparr>Upstream = \<lparr>Git = Some \<lparr>Ref = ''v1'', Directory = ''basens''\<rparr>\<rparr>\<rparr>,
      Patch = None, Eval = None\<rparr>"

definition patchTask :: Task where
  "patchTask = \<lparr>Type = ''patch'', Clone = None, Patch = Some \<lparr>Patches = None\<rparr>, Eval = None\<rparr>"

text \<open>The same patch task with an empty, non-nil path list.\<close>

definition emptyPatchTask :: Task where
  "emptyPatchTask =
     \<lparr>Type = ''patch'', Clone = None, Patch = Some \<lparr>Patches = Some []\<rparr>, Eval = None\<rparr>"

definition evalTask :: Task where
  "evalTask =
     \<lparr>Type = ''eval'', Clone = None, Patch = None,
      Eval = Some \<lparr>Image = ''gcr.io/kpt-fn/set-labels:v0.1'', ConfigMap = None\<rparr>\<rparr>"

definition editTask :: Task where
  "editTask = \<lparr>Type = ''edit'', Clone = None, Patch = None, Eval = None\<rparr>"

definition abPackage :: PackageRevision where
  "abPackage =
     \<lparr>Key = \<lparr>Package = ''foo'', Revision = ''v1''\<rparr>, Lifecycle = ''Draft'',
      KubeObjectName = ''repo-foo-v1'',
      GetResources = Inr [(''a'', ''1''), (''b'', ''2'')]\<rparr>"

definition revisionOf :: "string \<Rightarrow> string \<Rightarrow> string \<Rightarrow> PackageRevision" where
  "revisionOf pkg rv lifecycle =
     \<lparr>Key = \<lparr>Package = pkg, Revision = rv\<rparr>, Lifecycle = lifecycle,
      KubeObjectName = pkg @ ''-'' @ rv, GetResources = Inr []\<rparr>"

definition cachedOf :: "string \<Rightarrow> string \<Rightarrow> string \<Rightarrow> bool \<Rightarrow> cachedPackageRevision" where
  "cachedOf pkg rv lifecycle flag =
     \<lparr>PackageRevision = revisionOf pkg rv lifecycle, isLatestRevision = flag\<rparr>"

text \<open>A cached list for evaluation: four Published revisions of \<^verbatim>\<open>foo\<close> (one with a
  revision string that is not a version, two that compare equal), a Draft, and a package
  \<^verbatim>\<open>bar\<close>.\<close>

definition revisionsExample :: "cachedPackageRevision list" where
  "revisionsExample =
     [cachedOf ''foo'' ''v1.0.0'' ''Published'' True,
      cachedOf ''foo'' ''v1.3.0'' ''Draft'' False,
      cachedOf ''foo'' ''v1.2.0'' ''Published'' False,
      cachedOf ''foo'' ''main'' ''Published'' False,
      cachedOf ''foo'' ''v1.2'' ''Published'' False,
      cachedOf ''bar'' ''v0.1.0'' ''Published'' False]"

section \<open>Upsert into the cached list\<close>

lemma updateOrAppend_same_id:
  "cKubeObjectName a = cKubeObjectName b \<Longrightarrow>
   updateOrAppend (updateOrAppend revisions a) b = updateOrAppend revisions b"
  by (induction revisions) auto

lemma updateOrAppend_others:
  "filter (\<lambda>c. cKubeObjectName c \<noteq> cKubeObjectName b) (updateOrAppend revisions b) =
   filter (\<lambda>c. cKubeObjectName c \<noteq> cKubeObjectName b) revisions"
  by (induction revisions) auto

lemma updateOrAppend_this:
  "distinct (map cKubeObjectName revisions) \<Longrightarrow>
   filter (\<lambda>c. cKubeObjectName c = cKubeObjectName b) (updateOrAppend revisions b) = [b]"
proof (induction revisions)
  case Nil
  then show ?case by simp
next
  case (Cons c cs)
  show ?case
  proof (cases "cKubeObjectName c = cKubeObjectName b")
    case True
    with Cons.prems have "\<forall>x\<in>set cs. cKubeObjectName x \<noteq> cKubeObjectName b"
      by (metis (no_types, lifting) distinct.simps(2) image_eqI list.simps(9) set_map)
    then have "filter (\<lambda>c. cKubeObjectName c = cKubeObjectName b) cs = []"
      by (simp add: filter_empty_conv)
    with True show ?thesis by simp
  next
    case False
    with Cons show ?thesis by simp
  qed
qed

lemma updateOrAppend_ids:
  "set (map cKubeObjectName (updateOrAppend revisions b)) =
   insert (cKubeObjectName b) (set (map cKubeObjectName revisions))"
  by (induction revisions) auto

lemma updateOrAppend_distinct:
  "distinct (map cKubeObjectName revisions) \<Longrightarrow>
   distinct (map cKubeObjectName (updateOrAppend revisions b))"
proof (induction revisions)
  case Nil
  then show ?case by simp
next
  case (Cons c cs)
  then show ?case using updateOrAppend_ids[of cs b] by auto
qed

text \<open>
  C9: in a cached list with at most one entry per stable object identifier, upserting a
  revision \<open>a\<close> and then a revision \<open>b\<close> with the same \<^verbatim>\<open>KubeObjectName\<close> leaves exactly one
  entry for that identifier, which is \<open>b\<close> whole (no field of \<open>a\<close> or of the entry replaced
  survives); the entries with other identifiers are the same, in the same order; and the
  list is the one a single upsert of \<open>b\<close> gives.
\<close>

theorem updateOrAppend_twice:
  assumes "distinct (map cKubeObjectName revisions)"
    and "cKubeObjectName a = cKubeObjectName b"
  shows "filter (\<lambda>c. cKubeObjectName c = cKubeObjectName b)
           (updateOrAppend (updateOrAppend revisions a) b) = [b]
       \<and> filter (\<lambda>c. cKubeObjectName c \<noteq> cKubeObjectName b)
           (updateOrAppend (updateOrAppend revisions a) b) =
         filter (\<lambda>c. cKubeObjectName c \<noteq> cKubeObjectName b) revisions
       \<and> distinct (map cKubeObjectName (updateOrAppend (updateOrAppend revisions a) b))
       \<and> updateOrAppend (updateOrAppend revisions a) b = updateOrAppend revisions b"
  using assms updateOrAppend_same_id[of a b revisions] updateOrAppend_this[of revisions b]
    updateOrAppend_others[of b revisions] updateOrAppend_distinct[of revisions b]
  by simp

theorem updateOrAppend_twice_witness:
  "distinct (map cKubeObjectName
     [cachedOf ''foo'' ''v1'' ''Draft'' False, cachedOf ''bar'' ''v2'' ''Published'' True])
   \<and> cKubeObjectName (cachedOf ''bar'' ''v2'' ''Proposed'' False) =
     cKubeObjectName (cachedOf ''bar'' ''v2'' ''Published'' False)
   \<and> updateOrAppend
       (updateOrAppend
          [cachedOf ''foo'' ''v1'' ''Draft'' False, cachedOf ''bar'' ''v2'' ''Published'' True]
          (cachedOf ''bar'' ''v2'' ''Proposed'' False))
       (cachedOf ''bar'' ''v2'' ''Published'' False) =
     [cachedOf ''foo'' ''v1'' ''Draft'' False, cachedOf ''bar'' ''v2'' ''Published'' False]
   \<and> filter (\<lambda>c. cKubeObjectName c = cKubeObjectName (cachedOf ''bar'' ''v2'' ''Published'' False))
       (updateOrAppend
          (updateOrAppend
             [cachedOf ''foo'' ''v1'' ''Draft'' False, cachedOf ''bar'' ''v2'' ''Published'' True]
             (cachedOf ''bar'' ''v2'' ''Proposed'' False))
          (cachedOf ''bar'' ''v2'' ''Published'' False)) =
     [cachedOf ''bar'' ''v2'' ''Published'' False]"
proof -
  have h1: "distinct (map cKubeObjectName
     [cachedOf ''foo'' ''v1'' ''Draft'' False, cachedOf ''bar'' ''v2'' ''Published'' True])"
    by (simp add: cachedOf_def revisionOf_def)
  have h2: "cKubeObjectName (cachedOf ''bar'' ''v2'' ''Proposed'' False) =
     cKubeObjectName (cachedOf ''bar'' ''v2'' ''Published'' False)"
    by (simp add: cachedOf_def revisionOf_def)
  have e: "updateOrAppend
       (updateOrAppend
          [cachedOf ''foo'' ''v1'' ''Draft'' False, cachedOf ''bar'' ''v2'' ''Published'' True]
          (cachedOf ''bar'' ''v2'' ''Proposed'' False))
       (cachedOf ''bar'' ''v2'' ''Published'' False) =
     [cachedOf ''foo'' ''v1'' ''Draft'' False, cachedOf ''bar'' ''v2'' ''Published'' False]"
    by (simp add: cachedOf_def revisionOf_def)
  from updateOrAppend_twice[OF h1 h2] h1 h2 e show ?thesis by blast
qed

section \<open>Refresh of the package list\<close>

text \<open>
  C1, as the code has it: a forced refresh whose backend list call fails does not keep the
  previously cached package list. Whatever the cache held, \<^verbatim>\<open>cachedPackages\<close> is nil
  afterwards and \<^verbatim>\<open>refreshError\<close> is the backend's error; the same holds of
  \<^verbatim>\<open>pollOnce\<close>.
\<close>

theorem getPackages_failed_refresh:
  "snd (getPackages cmp valid srt r (Inl e) flt True) =
     r\<lparr>cachedPackages := None, refreshError := Some e\<rparr>
   \<and> pollOnce cmp valid srt r (Inl e) = r\<lparr>cachedPackages := None, refreshError := Some e\<rparr>"
  by (simp add: pollOnce_def getPackages_def split: option.splits)

text \<open>
  A cache that holds one Published revision of \<^verbatim>\<open>foo\<close> no longer holds it after a
  background refresh that fails.
\<close>

theorem failed_refresh_discards_cache:
  "cachedPackages
     (pollOnce numericCompare numericIsValid insertionSort
        \<lparr>cachedPackages = Some [cachedOf ''foo'' ''v1.0.0'' ''Published'' True], refreshError = None\<rparr>
        (Inl (BackendError ''unreachable'')))
   \<noteq> Some [cachedOf ''foo'' ''v1.0.0'' ''Published'' True]"
  by (simp add: pollOnce_def getPackages_def)

text \<open>
  C2: a call of \<^verbatim>\<open>getPackages\<close> on a cache that is not loaded and has no stored error,
  with a backend whose list call fails, should return that error. It stores the error in
  \<^verbatim>\<open>refreshError\<close> but returns an empty list and no error: the test after the block reads
  the \<^verbatim>\<open>err\<close> copied at entry, not the one of the backend call.
\<close>

theorem getPackages_backend_failure_returns_empty_list:
  "getPackages numericCompare numericIsValid insertionSort
     \<lparr>cachedPackages = None, refreshError = None\<rparr>
     (Inl (BackendError ''unreachable'')) (\<lambda>c. True) False =
   (Inr [], \<lparr>cachedPackages = None, refreshError = Some (BackendError ''unreachable'')\<rparr>)"
  by (simp add: getPackages_def toPackageRevisionSlice_def elems_def)

section \<open>Unwrapping the cached revision\<close>

text \<open>
  C10: \<^verbatim>\<open>UpdatePackage\<close> and \<^verbatim>\<open>DeletePackageRevision\<close> of the cache unwrap their argument
  with an unchecked type assertion. For an argument that is not a
  \<^verbatim>\<open>*cachedPackageRevision\<close> both panic, no call reaches the backend and the cache is as it
  was.
\<close>

theorem unwrap_panics:
  "\<forall>c. old \<noteq> CachedRevision c \<Longrightarrow>
   UpdatePackage r repoUpdate old = (Panic, []) \<and>
   DeletePackageRevision r repoDelete old = (Panic, r, [])"
  by (cases old) (simp_all add: UpdatePackage_def DeletePackageRevision_def)

theorem unwrap_panics_witness:
  "(\<forall>c. OtherRevision (revisionOf ''foo'' ''v1'' ''Draft'') \<noteq> CachedRevision c) \<and>
   UpdatePackage \<lparr>cachedPackages = Some [], refreshError = None\<rparr> (\<lambda>p. Inr ())
     (OtherRevision (revisionOf ''foo'' ''v1'' ''Draft'')) = (Panic, []) \<and>
   DeletePackageRevision \<lparr>cachedPackages = Some [], refreshError = None\<rparr> (\<lambda>p. None)
     (OtherRevision (revisionOf ''foo'' ''v1'' ''Draft'')) =
     (Panic, \<lparr>cachedPackages = Some [], refreshError = None\<rparr>, [])"
proof -
  have h: "\<forall>c. OtherRevision (revisionOf ''foo'' ''v1'' ''Draft'') \<noteq> CachedRevision c"
    by simp
  from unwrap_panics[OF h] h show ?thesis by blast
qed

section \<open>Replacing resources\<close>

lemma changed_paths:
  assumes "distinct (map fst new)"
  shows "set (map fst (filter (\<lambda>(k, newV).
            case map_of old k of None \<Rightarrow> True | Some oldV \<Rightarrow> newV \<noteq> oldV) new)) =
         {k. \<exists>v. map_of new k = Some v \<and> map_of old k \<noteq> Some v}"
proof -
  have "\<And>k v. (k, v) \<in> set new \<longleftrightarrow> map_of new k = Some v"
    using assms by simp
  then show ?thesis
    by (auto split: option.splits simp: image_iff)
qed

lemma removed_paths:
  "set (map fst (filter (\<lambda>(k, _). map_of new k = None) old)) =
   {k. map_of old k \<noteq> None \<and> map_of new k = None}"
proof -
  have "\<And>k. k \<in> fst ` set old \<longleftrightarrow> map_of old k \<noteq> None"
    by (simp add: map_of_eq_None_iff)
  then show ?thesis
    by (auto simp: image_iff) force+
qed

lemma updateDraft_single:
  "updateDraft env d b [m] =
     (case Apply (applyExternal env) m b of
        Inl err \<Rightarrow> (Inl err, [CallApply m b])
      | Inr (applied, task) \<Rightarrow>
          (case draftUpdateResources env d applied task of
             Inl err \<Rightarrow> (Inl err, [CallApply m b, CallUpdateResources applied task])
           | Inr d' \<Rightarrow>
               (draftClose env d', [CallApply m b, CallUpdateResources applied task, CallClose])))"
  by (simp split: sum.splits prod.splits)

text \<open>
  C7: the ReplaceResources mutation, applied to an input snapshot and a new file map (a map:
  no key twice), returns the new file map as the output snapshot and a task of type patch
  whose path list (the nil slice when there is no such path) has, as a set, exactly the
  paths added, changed or removed between the snapshot and the new map; and when the repository and the Draft open and the old
  resources are read, the only \<^verbatim>\<open>Apply\<close> that \<^verbatim>\<open>UpdatePackageResources\<close> runs is this
  mutation on the old package's resources (no render step).
\<close>

theorem replaceResources_diff:
  assumes "distinct (map fst new)"
  shows "(\<exists>paths.
            Apply ext (mutationReplaceResources new old) resources =
              Inr (new, Some \<lparr>Type = TaskTypePatch, Clone = None,
                              Patch = Some \<lparr>Patches = (if paths = [] then None else Some paths)\<rparr>,
                              Eval = None\<rparr>) \<and>
            set paths =
              {k. map_of new k \<noteq> None \<and> map_of resources k = None} \<union>
              {k. \<exists>u v. map_of resources k = Some u \<and> map_of new k = Some v \<and> u \<noteq> v} \<union>
              {k. map_of resources k \<noteq> None \<and> map_of new k = None})
       \<and> (openRepository env = None \<and> repoUpdatePackage env = Inr d \<and>
            GetResources oldPackage = Inr resources \<longrightarrow>
            filter isApply (snd (UpdatePackageResources env oldPackage old new)) =
              [CallApply (mutationReplaceResources new old) resources])"
proof -
  let ?p1 = "map fst (filter (\<lambda>(k, newV).
               case map_of resources k of None \<Rightarrow> True | Some oldV \<Rightarrow> newV \<noteq> oldV) new)"
  let ?p2 = "map fst (filter (\<lambda>(k, _). map_of new k = None) resources)"
  have a: "Apply ext (mutationReplaceResources new old) resources =
             Inr (new, Some \<lparr>Type = TaskTypePatch, Clone = None,
                             Patch = Some \<lparr>Patches =
                               (if ?p1 @ ?p2 = [] then None else Some (?p1 @ ?p2))\<rparr>,
                             Eval = None\<rparr>)"
    by (simp add: Apply_def replaceResourcesApply_def TaskTypePatch_def Let_def)
  have s: "set (?p1 @ ?p2) =
             {k. map_of new k \<noteq> None \<and> map_of resources k = None} \<union>
             {k. \<exists>u v. map_of resources k = Some u \<and> map_of new k = Some v \<and> u \<noteq> v} \<union>
             {k. map_of resources k \<noteq> None \<and> map_of new k = None}"
    unfolding set_append changed_paths[OF assms] removed_paths
    by (auto split: option.splits) (metis not_None_eq)+
  have u: "openRepository env = None \<and> repoUpdatePackage env = Inr d \<and>
            GetResources oldPackage = Inr resources \<longrightarrow>
            filter isApply (snd (UpdatePackageResources env oldPackage old new)) =
              [CallApply (mutationReplaceResources new old) resources]"
    by (simp add: UpdatePackageResources_def updateDraft_single a split: sum.splits)
  from a s u show ?thesis by blast
qed

theorem replaceResources_diff_witness:
  "distinct (map fst [(''a'', ''1''), (''c'', ''3'')]) \<and>
   (\<exists>paths.
      Apply (applyExternal recordingCollaborators)
        (mutationReplaceResources [(''a'', ''1''), (''c'', ''3'')] [(''a'', ''1''), (''b'', ''2'')])
        [(''a'', ''1''), (''b'', ''2'')] =
        Inr ([(''a'', ''1''), (''c'', ''3'')],
             Some \<lparr>Type = TaskTypePatch, Clone = None,
                   Patch = Some \<lparr>Patches = Some paths\<rparr>, Eval = None\<rparr>) \<and>
      set paths = {''b'', ''c''}) \<and>
   openRepository recordingCollaborators = None \<and>
   repoUpdatePackage recordingCollaborators = Inr [] \<and>
   GetResources abPackage = Inr [(''a'', ''1''), (''b'', ''2'')] \<and>
   filter isApply
     (snd (UpdatePackageResources recordingCollaborators abPackage
             [(''a'', ''1''), (''b'', ''2'')] [(''a'', ''1''), (''c'', ''3'')])) =
     [CallApply
        (mutationReplaceResources [(''a'', ''1''), (''c'', ''3'')] [(''a'', ''1''), (''b'', ''2'')])
        [(''a'', ''1''), (''b'', ''2'')]]"
proof -
  have h: "distinct (map fst [(''a'', ''1''), (''c'', ''3'')])" by simp
  have E:
    "Apply (applyExternal recordingCollaborators)
        (mutationReplaceResources [(''a'', ''1''), (''c'', ''3'')] [(''a'', ''1''), (''b'', ''2'')])
        [(''a'', ''1''), (''b'', ''2'')] =
        Inr ([(''a'', ''1''), (''c'', ''3'')],
             Some \<lparr>Type = TaskTypePatch, Clone = None,
                   Patch = Some \<lparr>Patches = Some [''c'', ''b'']\<rparr>, Eval = None\<rparr>)"
    by (simp add: Apply_def replaceResourcesApply_def TaskTypePatch_def)
  have o: "openRepository recordingCollaborators = None"
    by (simp add: recordingCollaborators_def)
  have u: "repoUpdatePackage recordingCollaborators = Inr []"
    by (simp add: recordingCollaborators_def)
  have g: "GetResources abPackage = Inr [(''a'', ''1''), (''b'', ''2'')]"
    by (simp add: abPackage_def)
  note t = replaceResources_diff[OF h, where ext = "applyExternal recordingCollaborators"
      and old = "[(''a'', ''1''), (''b'', ''2'')]" and resources = "[(''a'', ''1''), (''b'', ''2'')]"
      and env = recordingCollaborators and d = "[]" and oldPackage = abPackage]
  from conjunct1[OF t] have p:
    "\<exists>paths.
      Apply (applyExternal recordingCollaborators)
        (mutationReplaceResources [(''a'', ''1''), (''c'', ''3'')] [(''a'', ''1''), (''b'', ''2'')])
        [(''a'', ''1''), (''b'', ''2'')] =
        Inr ([(''a'', ''1''), (''c'', ''3'')],
             Some \<lparr>Type = TaskTypePatch, Clone = None,
                   Patch = Some \<lparr>Patches = Some paths\<rparr>, Eval = None\<rparr>) \<and>
      set paths = {''b'', ''c''}"
  proof (elim exE conjE)
    fix paths
    assume A: "Apply (applyExternal recordingCollaborators)
        (mutationReplaceResources [(''a'', ''1''), (''c'', ''3'')] [(''a'', ''1''), (''b'', ''2'')])
        [(''a'', ''1''), (''b'', ''2'')] =
        Inr ([(''a'', ''1''), (''c'', ''3'')],
             Some \<lparr>Type = TaskTypePatch, Clone = None,
                   Patch = Some \<lparr>Patches = (if paths = [] then None else Some paths)\<rparr>,
                   Eval = None\<rparr>)"
    from A E have P: "paths = [''c'', ''b'']" by (simp split: if_splits)
    then have S: "set paths = {''b'', ''c''}" by (simp add: insert_commute)
    have A': "Apply (applyExternal recordingCollaborators)
        (mutationReplaceResources [(''a'', ''1''), (''c'', ''3'')] [(''a'', ''1''), (''b'', ''2'')])
        [(''a'', ''1''), (''b'', ''2'')] =
        Inr ([(''a'', ''1''), (''c'', ''3'')],
             Some \<lparr>Type = TaskTypePatch, Clone = None,
                   Patch = Some \<lparr>Patches = Some paths\<rparr>, Eval = None\<rparr>)"
      using E unfolding P .
    show ?thesis by (rule exI[of _ paths]) (rule conjI[OF A' S])
  qed
  note r = mp[OF conjunct2[OF t] conjI[OF o conjI[OF u g]]]
  from h p o u g r show ?thesis by (intro conjI)
qed

section \<open>Creating a package revision\<close>

lemma task_types_distinct:
  "TaskTypeClone \<noteq> TaskTypePatch" "TaskTypeClone \<noteq> TaskTypeEval" "TaskTypePatch \<noteq> TaskTypeEval"
  "TaskTypePatch \<noteq> TaskTypeClone" "TaskTypeEval \<noteq> TaskTypeClone" "TaskTypeEval \<noteq> TaskTypePatch"
  by (simp_all add: TaskTypeClone_def TaskTypePatch_def TaskTypeEval_def)

lemma createTasks_accepted:
  "list_all accepted tasks \<Longrightarrow>
   createTasks tasks name mutations = Inr (mutations @ map (taskMutation name) tasks)"
proof (induction tasks arbitrary: mutations)
  case Nil
  then show ?case by simp
next
  case (Cons t ts)
  from Cons.prems have a: "accepted t" and r: "list_all accepted ts" by simp_all
  from a show ?case
    by (auto simp: accepted_def taskMutation_def task_types_distinct Cons.IH[OF r])
qed

lemma createTasks_rejected:
  assumes "list_all accepted pre" and "\<not> accepted t"
  shows "createTasks (pre @ t # post) name mutations =
     Inl (if Type t = TaskTypeClone then NotSetForTask ''clone'' (Type t)
          else if Type t = TaskTypePatch then
            (if Patch t = None then NotSetForTask ''patch'' (Type t) else PatchNotSupportedOnCreate)
          else if Type t = TaskTypeEval then NotSetForTask ''eval'' (Type t)
          else TaskTypeNotSupported (Type t))"
  using assms
proof (induction pre arbitrary: mutations)
  case Nil
  then show ?case by (auto simp: accepted_def)
next
  case (Cons p ps)
  from Cons.prems have a: "accepted p" and r: "list_all accepted ps" by simp_all
  from a show ?case
    by (auto simp: accepted_def task_types_distinct Cons.IH[OF r Cons.prems(2)])
qed

lemma not_all_accepted_split:
  "\<not> list_all accepted tasks \<Longrightarrow>
   \<exists>pre t post. tasks = pre @ t # post \<and> list_all accepted pre \<and> \<not> accepted t"
proof (induction tasks)
  case Nil
  then show ?case by simp
next
  case (Cons x xs)
  show ?case
  proof (cases "accepted x")
    case False
    then have "x # xs = [] @ x # xs \<and> list_all accepted [] \<and> \<not> accepted x" by simp
    then show ?thesis by blast
  next
    case True
    with Cons.prems have "\<not> list_all accepted xs" by simp
    from Cons.IH[OF this] obtain pre t post
      where "xs = pre @ t # post" "list_all accepted pre" "\<not> accepted t" by blast
    with True have "x # xs = (x # pre) @ t # post \<and> list_all accepted (x # pre) \<and> \<not> accepted t"
      by simp
    then show ?thesis by blast
  qed
qed

lemma createTasks_not_accepted:
  assumes "\<not> list_all accepted tasks"
  shows "isl (createTasks tasks name mutations)"
proof -
  from not_all_accepted_split[OF assms] obtain pre t post
    where "tasks = pre @ t # post" "list_all accepted pre" "\<not> accepted t" by blast
  then show ?thesis using createTasks_rejected[of pre t post name mutations] by simp
qed

lemma patch_not_accepted: "Type t = TaskTypePatch \<Longrightarrow> \<not> accepted t"
  by (simp add: accepted_def task_types_distinct)

lemma other_not_accepted:
  "Type t \<notin> {TaskTypeClone, TaskTypePatch, TaskTypeEval} \<Longrightarrow> \<not> accepted t"
  by (simp add: accepted_def)

lemma CreatePackageRevision_not_accepted:
  assumes "\<not> list_all accepted tasks"
  shows "isl (fst (CreatePackageRevision env tasks name))"
    and "openRepository env = None \<and> repoCreatePackageRevision env = Inr draft \<longrightarrow>
         snd (CreatePackageRevision env tasks name) = [CallOpenRepository, CallCreatePackageRevision]"
  using createTasks_not_accepted[OF assms, of name "[]"]
  by (auto simp: CreatePackageRevision_def split: option.splits sum.splits)

lemma CreatePackageRevision_accepted:
  assumes "openRepository env = None" "repoCreatePackageRevision env = Inr draft"
    and "list_all accepted tasks"
  shows "CreatePackageRevision env tasks name =
     (fst (updateDraft env draft [] (map (taskMutation name) tasks @ [renderPackageMutation])),
      CallOpenRepository # CallCreatePackageRevision #
      snd (updateDraft env draft [] (map (taskMutation name) tasks @ [renderPackageMutation])))"
  using assms createTasks_accepted[OF assms(3), of name "[]"]
  by (simp add: CreatePackageRevision_def split: prod.splits)

lemma CreatePackageRevision_rejected:
  assumes "openRepository env = None" "repoCreatePackageRevision env = Inr draft"
    and "list_all accepted pre" "\<not> accepted t"
  shows "CreatePackageRevision env (pre @ t # post) name =
     (Inl (if Type t = TaskTypeClone then NotSetForTask ''clone'' (Type t)
          else if Type t = TaskTypePatch then
            (if Patch t = None then NotSetForTask ''patch'' (Type t) else PatchNotSupportedOnCreate)
          else if Type t = TaskTypeEval then NotSetForTask ''eval'' (Type t)
          else TaskTypeNotSupported (Type t)),
      [CallOpenRepository, CallCreatePackageRevision])"
  using assms(1,2) createTasks_rejected[OF assms(3,4), of post name "[]"]
  by (simp add: CreatePackageRevision_def)

text \<open>
  C8: \<^verbatim>\<open>CreatePackageRevision\<close> returns an error for every task list that holds a task of
  type patch, and for every task list that holds a task whose type is none of clone, patch
  and eval. When the repository and the Draft open and the tasks before it are accepted, a
  patch task (with its payload) is rejected as not supported on create, and a task of
  another type as not supported. When every task is accepted (a clone or an eval task with
  its payload), the mutations driven through the Draft are those of the tasks, in order,
  followed by a render mutation, from the empty snapshot.
\<close>

theorem CreatePackageRevision_tasks:
  "((\<exists>t\<in>set tasks. Type t = TaskTypePatch) \<longrightarrow>
      isl (fst (CreatePackageRevision env tasks name)))
   \<and> ((\<exists>t\<in>set tasks. Type t \<notin> {TaskTypeClone, TaskTypePatch, TaskTypeEval}) \<longrightarrow>
      isl (fst (CreatePackageRevision env tasks name)))
   \<and> (openRepository env = None \<and> repoCreatePackageRevision env = Inr draft \<and>
       list_all accepted pre \<and> Type t = TaskTypePatch \<and> Patch t \<noteq> None \<longrightarrow>
       fst (CreatePackageRevision env (pre @ t # post) name) = Inl PatchNotSupportedOnCreate)
   \<and> (openRepository env = None \<and> repoCreatePackageRevision env = Inr draft \<and>
       list_all accepted pre \<and> Type t \<notin> {TaskTypeClone, TaskTypePatch, TaskTypeEval} \<longrightarrow>
       fst (CreatePackageRevision env (pre @ t # post) name) = Inl (TaskTypeNotSupported (Type t)))
   \<and> (openRepository env = None \<and> repoCreatePackageRevision env = Inr draft \<and>
       list_all accepted tasks \<longrightarrow>
       CreatePackageRevision env tasks name =
         (fst (updateDraft env draft [] (map (taskMutation name) tasks @ [renderPackageMutation])),
          CallOpenRepository # CallCreatePackageRevision #
          snd (updateDraft env draft [] (map (taskMutation name) tasks @ [renderPackageMutation]))))"
proof (intro conjI impI)
  assume "\<exists>t\<in>set tasks. Type t = TaskTypePatch"
  then have "\<not> list_all accepted tasks"
    using patch_not_accepted by (auto simp: list_all_iff)
  then show "isl (fst (CreatePackageRevision env tasks name))"
    by (rule CreatePackageRevision_not_accepted(1))
next
  assume "\<exists>t\<in>set tasks. Type t \<notin> {TaskTypeClone, TaskTypePatch, TaskTypeEval}"
  then have "\<not> list_all accepted tasks"
    using other_not_accepted by (auto simp: list_all_iff)
  then show "isl (fst (CreatePackageRevision env tasks name))"
    by (rule CreatePackageRevision_not_accepted(1))
next
  assume h: "openRepository env = None \<and> repoCreatePackageRevision env = Inr draft \<and>
       list_all accepted pre \<and> Type t = TaskTypePatch \<and> Patch t \<noteq> None"
  then have "\<not> accepted t" by (simp add: patch_not_accepted)
  with h show "fst (CreatePackageRevision env (pre @ t # post) name) = Inl PatchNotSupportedOnCreate"
    using CreatePackageRevision_rejected[of env draft pre t post name]
    by (simp add: task_types_distinct)
next
  assume h: "openRepository env = None \<and> repoCreatePackageRevision env = Inr draft \<and>
       list_all accepted pre \<and> Type t \<notin> {TaskTypeClone, TaskTypePatch, TaskTypeEval}"
  then have "\<not> accepted t" by (simp add: other_not_accepted)
  with h show "fst (CreatePackageRevision env (pre @ t # post) name) =
      Inl (TaskTypeNotSupported (Type t))"
    using CreatePackageRevision_rejected[of env draft pre t post name]
    by simp
next
  assume h: "openRepository env = None \<and> repoCreatePackageRevision env = Inr draft \<and>
       list_all accepted tasks"
  then show "CreatePackageRevision env tasks name =
         (fst (updateDraft env draft [] (map (taskMutation name) tasks @ [renderPackageMutation])),
          CallOpenRepository # CallCreatePackageRevision #
          snd (updateDraft env draft [] (map (taskMutation name) tasks @ [renderPackageMutation])))"
    using CreatePackageRevision_accepted[of env draft tasks name] by simp
qed

theorem CreatePackageRevision_tasks_witness:
  "(\<exists>t\<in>set [cloneTask, patchTask]. Type t = TaskTypePatch)
   \<and> isl (fst (CreatePackageRevision recordingCollaborators [cloneTask, patchTask] ''foo''))
   \<and> (\<exists>t\<in>set [cloneTask, editTask]. Type t \<notin> {TaskTypeClone, TaskTypePatch, TaskTypeEval})
   \<and> isl (fst (CreatePackageRevision recordingCollaborators [cloneTask, editTask] ''foo''))
   \<and> openRepository recordingCollaborators = None
   \<and> repoCreatePackageRevision recordingCollaborators = Inr []
   \<and> list_all accepted [cloneTask]
   \<and> Type patchTask = TaskTypePatch \<and> Patch patchTask \<noteq> None
   \<and> fst (CreatePackageRevision recordingCollaborators ([cloneTask] @ patchTask # [evalTask]) ''foo'') =
       Inl PatchNotSupportedOnCreate
   \<and> Type editTask \<notin> {TaskTypeClone, TaskTypePatch, TaskTypeEval}
   \<and> fst (CreatePackageRevision recordingCollaborators ([cloneTask] @ editTask # [evalTask]) ''foo'') =
       Inl (TaskTypeNotSupported ''edit'')
   \<and> CreatePackageRevision recordingCollaborators [cloneTask] ''foo'' =
       (Inr (closedRevision
               [([(''Kptfile'', ''foo'')], Some cloneTask), ([(''Kptfile'', ''foo'')], None)]),
        [CallOpenRepository, CallCreatePackageRevision,
         CallApply (clonePackageMutation cloneTask ''foo'') [],
         CallUpdateResources [(''Kptfile'', ''foo'')] (Some cloneTask),
         CallApply renderPackageMutation [(''Kptfile'', ''foo'')],
         CallUpdateResources [(''Kptfile'', ''foo'')] None,
         CallClose])"
proof -
  have h1: "\<exists>t\<in>set [cloneTask, patchTask]. Type t = TaskTypePatch"
    by (simp add: patchTask_def TaskTypePatch_def)
  have k1: "\<exists>t\<in>set [cloneTask, editTask]. Type t \<notin> {TaskTypeClone, TaskTypePatch, TaskTypeEval}"
    by (simp add: editTask_def TaskTypeClone_def TaskTypePatch_def TaskTypeEval_def)
  have h2: "openRepository recordingCollaborators = None"
    by (simp add: recordingCollaborators_def)
  have h3: "repoCreatePackageRevision recordingCollaborators = Inr []"
    by (simp add: recordingCollaborators_def)
  have h4: "list_all accepted [cloneTask]"
    by (simp add: accepted_def cloneTask_def TaskTypeClone_def)
  have p1: "Type patchTask = TaskTypePatch" by (simp add: patchTask_def TaskTypePatch_def)
  have p2: "Patch patchTask \<noteq> None" by (simp add: patchTask_def)
  have e1: "Type editTask \<notin> {TaskTypeClone, TaskTypePatch, TaskTypeEval}"
    by (simp add: editTask_def TaskTypeClone_def TaskTypePatch_def TaskTypeEval_def)
  have e2: "Type editTask = ''edit''" by (simp add: editTask_def)
  have m: "map (taskMutation ''foo'') [cloneTask] @ [renderPackageMutation] =
      [clonePackageMutation cloneTask ''foo'', renderPackageMutation]"
    by (simp add: taskMutation_def cloneTask_def TaskTypeClone_def)
  have d: "updateDraft recordingCollaborators [] []
             [clonePackageMutation cloneTask ''foo'', renderPackageMutation] =
       (Inr (closedRevision
               [([(''Kptfile'', ''foo'')], Some cloneTask), ([(''Kptfile'', ''foo'')], None)]),
        [CallApply (clonePackageMutation cloneTask ''foo'') [],
         CallUpdateResources [(''Kptfile'', ''foo'')] (Some cloneTask),
         CallApply renderPackageMutation [(''Kptfile'', ''foo'')],
         CallUpdateResources [(''Kptfile'', ''foo'')] None,
         CallClose])"
    by (simp add: Apply_def recordingCollaborators_def)
  note t1 = CreatePackageRevision_tasks[where tasks = "[cloneTask, patchTask]"
      and env = recordingCollaborators and name = "''foo''" and draft = "[]"
      and pre = "[cloneTask]" and t = patchTask and post = "[evalTask]"]
  note t2 = CreatePackageRevision_tasks[where tasks = "[cloneTask]"
      and env = recordingCollaborators and name = "''foo''" and draft = "[]"
      and pre = "[cloneTask]" and t = editTask and post = "[evalTask]"]
  note t3 = CreatePackageRevision_tasks[where tasks = "[cloneTask, editTask]"
      and env = recordingCollaborators and name = "''foo''"]
  have c1: "isl (fst (CreatePackageRevision recordingCollaborators [cloneTask, patchTask] ''foo''))"
    by (rule mp[OF conjunct1[OF t1] h1])
  have c2: "isl (fst (CreatePackageRevision recordingCollaborators [cloneTask, editTask] ''foo''))"
    by (rule mp[OF conjunct1[OF conjunct2[OF t3]] k1])
  have c3: "fst (CreatePackageRevision recordingCollaborators
                   ([cloneTask] @ patchTask # [evalTask]) ''foo'') =
       Inl PatchNotSupportedOnCreate"
    by (rule mp[OF conjunct1[OF conjunct2[OF conjunct2[OF t1]]]
          conjI[OF h2 conjI[OF h3 conjI[OF h4 conjI[OF p1 p2]]]]])
  have c4: "fst (CreatePackageRevision recordingCollaborators
                   ([cloneTask] @ editTask # [evalTask]) ''foo'') =
       Inl (TaskTypeNotSupported (Type editTask))"
    by (rule mp[OF conjunct1[OF conjunct2[OF conjunct2[OF conjunct2[OF t2]]]]
          conjI[OF h2 conjI[OF h3 conjI[OF h4 e1]]]])
  have c5: "CreatePackageRevision recordingCollaborators [cloneTask] ''foo'' =
       (fst (updateDraft recordingCollaborators [] []
               (map (taskMutation ''foo'') [cloneTask] @ [renderPackageMutation])),
        CallOpenRepository # CallCreatePackageRevision #
        snd (updateDraft recordingCollaborators [] []
               (map (taskMutation ''foo'') [cloneTask] @ [renderPackageMutation])))"
    by (rule mp[OF conjunct2[OF conjunct2[OF conjunct2[OF conjunct2[OF t2]]]]
          conjI[OF h2 conjI[OF h3 h4]]])
  have c5': "CreatePackageRevision recordingCollaborators [cloneTask] ''foo'' =
       (Inr (closedRevision
               [([(''Kptfile'', ''foo'')], Some cloneTask), ([(''Kptfile'', ''foo'')], None)]),
        [CallOpenRepository, CallCreatePackageRevision,
         CallApply (clonePackageMutation cloneTask ''foo'') [],
         CallUpdateResources [(''Kptfile'', ''foo'')] (Some cloneTask),
         CallApply renderPackageMutation [(''Kptfile'', ''foo'')],
         CallUpdateResources [(''Kptfile'', ''foo'')] None,
         CallClose])"
    using c5 unfolding m d by simp
  show ?thesis
    using h1 c1 k1 c2 h2 h3 h4 p1 p2 c3 e1 c4[unfolded e2] c5' by (intro conjI)
qed

section \<open>Unsupported task lists\<close>

lemma updateTasks_type_mismatch:
  "i < length ps \<Longrightarrow> Type (fst (ps ! i)) \<noteq> Type (snd (ps ! i)) \<Longrightarrow>
   isl (updateTasks ps k mutations)"
proof (induction ps arbitrary: i k mutations)
  case Nil
  then show ?case by simp
next
  case (Cons p ps)
  obtain oldTask newTask where p: "p = (oldTask, newTask)" by (cases p)
  show ?case
  proof (cases i)
    case 0
    with Cons.prems p show ?thesis by simp
  next
    case (Suc j)
    with Cons.prems have "j < length ps" "Type (fst (ps ! j)) \<noteq> Type (snd (ps ! j))"
      by simp_all
    then have "\<And>k' ms'. isl (updateTasks ps k' ms')" by (rule Cons.IH)
    then show ?thesis by (simp add: p)
  qed
qed

lemma UpdatePackageRevision_draft_opened:
  assumes "CallUpdatePackage \<in> set (snd (UpdatePackageRevision env oldPackage oldTasks newTasks))"
  shows "length oldTasks = length newTasks \<and> \<not> isl (updateTasks (zip oldTasks newTasks) 0 [])"
  using assms
  by (auto simp: UpdatePackageRevision_def Let_def split: option.splits sum.splits if_splits)

lemma UpdatePackageRevision_rejected:
  assumes "openRepository env = None"
    and "length oldTasks \<noteq> length newTasks \<or> isl (updateTasks (zip oldTasks newTasks) 0 [])"
  shows "isl (fst (UpdatePackageRevision env oldPackage oldTasks newTasks)) \<and>
         snd (UpdatePackageRevision env oldPackage oldTasks newTasks) = [CallOpenRepository]"
  using assms
  by (auto simp: UpdatePackageRevision_def Let_def split: option.splits sum.splits if_splits)

text \<open>
  \<^verbatim>\<open>UpdatePackageRevision\<close> validates before it opens a Draft: for task lists whose lengths
  differ, or with a task whose type changed, or on which the loop over the tasks fails, it
  returns an error after the call that opens the repository and makes no other call; and a
  call of \<^verbatim>\<open>repo.UpdatePackage\<close> is made only when the lengths agree, the types agree
  pairwise and the loop returned no error.
\<close>

lemma UpdatePackageRevision_validates_first:
  "(openRepository env = None \<and>
      (length oldTasks \<noteq> length newTasks \<or>
       (\<exists>i<length oldTasks. Type (oldTasks ! i) \<noteq> Type (newTasks ! i)) \<or>
       isl (updateTasks (zip oldTasks newTasks) 0 [])) \<longrightarrow>
      isl (fst (UpdatePackageRevision env oldPackage oldTasks newTasks)) \<and>
      snd (UpdatePackageRevision env oldPackage oldTasks newTasks) = [CallOpenRepository])
   \<and> (CallUpdatePackage \<in> set (snd (UpdatePackageRevision env oldPackage oldTasks newTasks)) \<longrightarrow>
      length oldTasks = length newTasks \<and>
      (\<forall>i<length oldTasks. Type (oldTasks ! i) = Type (newTasks ! i)) \<and>
      \<not> isl (updateTasks (zip oldTasks newTasks) 0 []))"
proof -
  have mismatch: "isl (updateTasks (zip oldTasks newTasks) 0 [])"
    if "length oldTasks = length newTasks" "i < length oldTasks"
      "Type (oldTasks ! i) \<noteq> Type (newTasks ! i)" for i
    using that updateTasks_type_mismatch[of i "zip oldTasks newTasks" 0 "[]"] by simp
  have a: "openRepository env = None \<and>
      (length oldTasks \<noteq> length newTasks \<or>
       (\<exists>i<length oldTasks. Type (oldTasks ! i) \<noteq> Type (newTasks ! i)) \<or>
       isl (updateTasks (zip oldTasks newTasks) 0 [])) \<longrightarrow>
      isl (fst (UpdatePackageRevision env oldPackage oldTasks newTasks)) \<and>
      snd (UpdatePackageRevision env oldPackage oldTasks newTasks) = [CallOpenRepository]"
    using mismatch UpdatePackageRevision_rejected[of env oldTasks newTasks oldPackage] by blast
  have b: "CallUpdatePackage \<in> set (snd (UpdatePackageRevision env oldPackage oldTasks newTasks)) \<longrightarrow>
      length oldTasks = length newTasks \<and>
      (\<forall>i<length oldTasks. Type (oldTasks ! i) = Type (newTasks ! i)) \<and>
      \<not> isl (updateTasks (zip oldTasks newTasks) 0 [])"
    using mismatch UpdatePackageRevision_draft_opened[of env oldPackage oldTasks newTasks] by blast
  from a b show ?thesis by (intro conjI)
qed

text \<open>
  A patch task whose path list changes from nil to empty is a changed task of a type that
  cannot be updated: the request is rejected after the repository is opened, before a Draft
  is; a task list whose length changes likewise.
\<close>

lemma UpdatePackageRevision_rejects_examples:
  "UpdatePackageRevision recordingCollaborators (revisionOf ''foo'' ''v1'' ''Draft'')
     [patchTask] [emptyPatchTask] =
     (Inl (UpdatingTaskNotSupported ''patch''), [CallOpenRepository])"
  "UpdatePackageRevision recordingCollaborators (revisionOf ''foo'' ''v1'' ''Draft'')
     [cloneTask] [cloneTask, evalTask] =
     (Inl AddingRemovingTasksNotSupported, [CallOpenRepository])"
  by (simp_all add: UpdatePackageRevision_def recordingCollaborators_def patchTask_def
      emptyPatchTask_def TaskTypeClone_def)

text \<open>
  \<^verbatim>\<open>CreatePackageRevision\<close> has the other order. For a task list with a patch task or a
  task of an unrecognized type, in a repository that opens and hands out a Draft, it
  returns the error after the calls that open the repository and the Draft.
\<close>

lemma CreatePackageRevision_rejects_after_opening:
  assumes o: "openRepository env = None" and r: "repoCreatePackageRevision env = Inr draft"
    and t: "\<exists>t\<in>set tasks. Type t = TaskTypePatch \<or>
                      Type t \<notin> {TaskTypeClone, TaskTypePatch, TaskTypeEval}"
  shows "isl (fst (CreatePackageRevision env tasks name)) \<and>
      snd (CreatePackageRevision env tasks name) = [CallOpenRepository, CallCreatePackageRevision]"
proof -
  from t have n: "\<not> list_all accepted tasks"
    using patch_not_accepted other_not_accepted unfolding list_all_iff by blast
  from CreatePackageRevision_not_accepted(1)[OF n, of env name]
    CreatePackageRevision_not_accepted(2)[OF n, of env draft name] o r
  show ?thesis by simp
qed

text \<open>
  C5: a request with an unsupported task list should get its error before any Draft is
  opened. \<^verbatim>\<open>UpdatePackageRevision\<close> does so; \<^verbatim>\<open>CreatePackageRevision\<close> does not: for a
  create request whose only task is a patch task, the error that patch is not supported on
  create is returned after \<^verbatim>\<open>repo.CreatePackageRevision\<close> has opened the Draft.
\<close>

theorem create_opens_draft_before_rejecting:
  "CreatePackageRevision recordingCollaborators [patchTask] ''foo'' =
     (Inl PatchNotSupportedOnCreate, [CallOpenRepository, CallCreatePackageRevision])"
  by (simp add: CreatePackageRevision_def recordingCollaborators_def patchTask_def
      TaskTypeClone_def TaskTypePatch_def)

section \<open>The driver of the pipeline\<close>

lemma pipelineAfter_Cons:
  "pipelineAfter env d b (m # ms) (Suc k) =
     (case pipelineStep env (d, b) m of
        Inl e \<Rightarrow> Inl e
      | Inr (d', a) \<Rightarrow> pipelineAfter env d' a ms k)"
proof (induction k)
  case 0
  show ?case by (simp split: sum.splits)
next
  case (Suc k)
  have "pipelineAfter env d b (m # ms) (Suc (Suc k)) =
      (case pipelineAfter env d b (m # ms) (Suc k) of
         Inl e \<Rightarrow> Inl e
       | Inr dc \<Rightarrow> pipelineStep env dc (ms ! k))"
    by (subst pipelineAfter.simps(2)) (simp only: nth_Cons_Suc cong: sum.case_cong)
  also have "\<dots> = (case pipelineStep env (d, b) m of
        Inl e \<Rightarrow> Inl e
      | Inr (d', a) \<Rightarrow> pipelineAfter env d' a ms (Suc k))"
    unfolding Suc.IH by (simp split: sum.splits)
  finally show ?case .
qed

lemma stepCalls_Cons_0:
  "stepCalls env d b (m # ms) 0 =
     CallApply m b #
     (case Apply (applyExternal env) m b of
        Inl e \<Rightarrow> []
      | Inr (applied, task) \<Rightarrow> [CallUpdateResources applied task])"
  by (simp add: stepCalls_def)

lemma stepCalls_Cons_Suc:
  "stepCalls env d b (m # ms) (Suc k) =
     (case pipelineStep env (d, b) m of
        Inl e \<Rightarrow> []
      | Inr (d', a) \<Rightarrow> stepCalls env d' a ms k)"
  unfolding stepCalls_def pipelineAfter_Cons
  by (simp split: sum.splits)

lemma upt_Suc_shift: "[0..<Suc n] = 0 # map Suc [0..<n]"
  by (simp add: upt_conv_Cons map_Suc_upt del: upt_Suc)

lemma concat_stepCalls_Cons:
  "concat (map (stepCalls env d b (m # ms)) [0..<Suc (length ms)]) =
     stepCalls env d b (m # ms) 0 @
     (case pipelineStep env (d, b) m of
        Inl e \<Rightarrow> []
      | Inr (d', a) \<Rightarrow> concat (map (stepCalls env d' a ms) [0..<length ms]))"
  unfolding upt_Suc_shift
  by (simp add: comp_def stepCalls_Cons_Suc split: sum.splits del: upt_Suc)

lemma updateDraft_closed_form:
  "updateDraft env d b ms =
     (case pipelineAfter env d b ms (length ms) of
        Inl e \<Rightarrow> Inl e
      | Inr (d', s') \<Rightarrow> draftClose env d',
      concat (map (stepCalls env d b ms) [0..<length ms]) @
      (case pipelineAfter env d b ms (length ms) of
         Inl e \<Rightarrow> []
       | Inr dc \<Rightarrow> [CallClose]))"
proof (induction ms arbitrary: d b)
  case Nil
  show ?case by simp
next
  case (Cons m ms)
  show ?case
  proof (cases "Apply (applyExternal env) m b")
    case (Inl e)
    then have s: "pipelineStep env (d, b) m = Inl e" by (simp add: pipelineStep_def)
    show ?thesis
      unfolding length_Cons concat_stepCalls_Cons pipelineAfter_Cons stepCalls_Cons_0 s
      using Inl by simp
  next
    case (Inr at)
    obtain applied task where at: "at = (applied, task)" by (cases at)
    show ?thesis
    proof (cases "draftUpdateResources env d applied task")
      case (Inl e)
      then have s: "pipelineStep env (d, b) m = Inl e"
        using Inr at by (simp add: pipelineStep_def)
      show ?thesis
        unfolding length_Cons concat_stepCalls_Cons pipelineAfter_Cons stepCalls_Cons_0 s
        using Inr at Inl by simp
    next
      case (Inr d')
      then have s: "pipelineStep env (d, b) m = Inr (d', applied)"
        using \<open>Apply (applyExternal env) m b = Inr at\<close> at by (simp add: pipelineStep_def)
      show ?thesis
        unfolding length_Cons concat_stepCalls_Cons pipelineAfter_Cons stepCalls_Cons_0 s
        using \<open>Apply (applyExternal env) m b = Inr at\<close> at Inr Cons.IH[of d' applied]
        by (simp split: sum.splits prod.splits)
    qed
  qed
qed

lemma CallClose_notin_stepCalls: "CallClose \<notin> set (stepCalls env d b ms k)"
  by (simp add: stepCalls_def split: sum.splits prod.splits)

lemma CallClose_notin_steps: "CallClose \<notin> set (concat (map (stepCalls env d b ms) ks))"
  by (induction ks) (simp_all add: CallClose_notin_stepCalls)

lemma pipelineAfter_error_stable:
  "pipelineAfter env d b ms k = Inl e \<Longrightarrow> k \<le> k' \<Longrightarrow> pipelineAfter env d b ms k' = Inl e"
proof (induction k')
  case 0
  then show ?case by simp
next
  case (Suc k')
  show ?case
  proof (cases "k = Suc k'")
    case True
    with Suc.prems show ?thesis by simp
  next
    case False
    with Suc.prems have "k \<le> k'" by simp
    with Suc have "pipelineAfter env d b ms k' = Inl e" by simp
    then show ?thesis by simp
  qed
qed

lemma stepCalls_after_error:
  "pipelineAfter env d b ms k = Inl e \<Longrightarrow> k \<le> k' \<Longrightarrow> stepCalls env d b ms k' = []"
  using pipelineAfter_error_stable[of env d b ms k e k'] by (simp add: stepCalls_def)

lemma concat_stepCalls_after_error:
  assumes "pipelineAfter env d b ms k = Inl e" and "k \<le> n"
  shows "concat (map (stepCalls env d b ms) [0..<n]) = concat (map (stepCalls env d b ms) [0..<k])"
proof -
  have "[0..<n] = [0..<k] @ [k..<n]"
    using assms(2) by (metis le_add_diff_inverse upt_add_eq_append zero_le)
  moreover have "concat (map (stepCalls env d b ms) [k..<n]) = []"
    using stepCalls_after_error[OF assms(1)] by simp
  ultimately show ?thesis by simp
qed

lemma updateDraft_failure:
  assumes k: "k < length ms"
    and p: "pipelineAfter env d b ms k = Inr (dk, sk)"
    and f: "pipelineStep env (dk, sk) (ms ! k) = Inl e"
  shows "updateDraft env d b ms = (Inl e, concat (map (stepCalls env d b ms) [0..<Suc k]))"
proof -
  from p f have e: "pipelineAfter env d b ms (Suc k) = Inl e" by simp
  from k have le: "Suc k \<le> length ms" by simp
  have "pipelineAfter env d b ms (length ms) = Inl e"
    by (rule pipelineAfter_error_stable[OF e le])
  moreover have "concat (map (stepCalls env d b ms) [0..<length ms]) =
      concat (map (stepCalls env d b ms) [0..<Suc k])"
    by (rule concat_stepCalls_after_error[OF e le])
  ultimately show ?thesis
    by (simp add: updateDraft_closed_form[of env d b ms])
qed

lemma pipelineStep_Inl:
  "pipelineStep env (dk, sk) m = Inl e \<longleftrightarrow>
     Apply (applyExternal env) m sk = Inl e \<or>
     (\<exists>applied task. Apply (applyExternal env) m sk = Inr (applied, task) \<and>
        draftUpdateResources env dk applied task = Inl e)"
  by (auto simp: pipelineStep_def split: sum.splits)

lemma pipelineAfter_Suc_Inr:
  assumes "pipelineAfter env d b ms (Suc k) = Inr (d', s')"
  shows "\<exists>dk sk task. pipelineAfter env d b ms k = Inr (dk, sk) \<and>
           Apply (applyExternal env) (ms ! k) sk = Inr (s', task) \<and>
           draftUpdateResources env dk s' task = Inr d'"
  using assms by (auto simp: pipelineStep_def split: sum.splits)

text \<open>
  C4: \<^verbatim>\<open>updateDraft\<close> applies the mutations in order, each on the snapshot that the step
  before it produced (the first on the base resources), and pushes each produced snapshot
  with its task into the Draft. Its calls are those of the steps up to the first failure,
  followed by \<^verbatim>\<open>Close\<close> exactly when no step failed, and then its result is that of
  \<^verbatim>\<open>Close\<close>. If the \<^verbatim>\<open>Apply\<close> of step \<open>k\<close> or the \<^verbatim>\<open>UpdateResources\<close> that follows it
  fails, \<^verbatim>\<open>updateDraft\<close> returns that error, makes no call after the failing one, and does
  not call \<^verbatim>\<open>Close\<close>: the Draft is never committed.
\<close>

theorem updateDraft_pipeline:
  "updateDraft env d b ms =
     (case pipelineAfter env d b ms (length ms) of
        Inl e \<Rightarrow> Inl e
      | Inr (d', s') \<Rightarrow> draftClose env d',
      concat (map (stepCalls env d b ms) [0..<length ms]) @
      (case pipelineAfter env d b ms (length ms) of
         Inl e \<Rightarrow> []
       | Inr dc \<Rightarrow> [CallClose]))
   \<and> (CallClose \<in> set (snd (updateDraft env d b ms)) \<longleftrightarrow>
        \<not> isl (pipelineAfter env d b ms (length ms)))
   \<and> (k < length ms \<and> pipelineAfter env d b ms k = Inr (dk, sk) \<and>
        (Apply (applyExternal env) (ms ! k) sk = Inl e \<or>
         (\<exists>applied task. Apply (applyExternal env) (ms ! k) sk = Inr (applied, task) \<and>
            draftUpdateResources env dk applied task = Inl e)) \<longrightarrow>
        updateDraft env d b ms = (Inl e, concat (map (stepCalls env d b ms) [0..<Suc k])) \<and>
        CallClose \<notin> set (snd (updateDraft env d b ms)))
   \<and> (pipelineAfter env d b ms (Suc j) = Inr (d', s') \<longrightarrow>
        (\<exists>dj sj task. pipelineAfter env d b ms j = Inr (dj, sj) \<and>
           Apply (applyExternal env) (ms ! j) sj = Inr (s', task) \<and>
           draftUpdateResources env dj s' task = Inr d'))"
proof (intro conjI impI)
  show "updateDraft env d b ms =
     (case pipelineAfter env d b ms (length ms) of
        Inl e \<Rightarrow> Inl e
      | Inr (d', s') \<Rightarrow> draftClose env d',
      concat (map (stepCalls env d b ms) [0..<length ms]) @
      (case pipelineAfter env d b ms (length ms) of
         Inl e \<Rightarrow> []
       | Inr dc \<Rightarrow> [CallClose]))"
    by (rule updateDraft_closed_form)
next
  show "CallClose \<in> set (snd (updateDraft env d b ms)) \<longleftrightarrow>
        \<not> isl (pipelineAfter env d b ms (length ms))"
  proof (cases "pipelineAfter env d b ms (length ms)")
    case (Inl e)
    then show ?thesis
      using CallClose_notin_steps[of env d b ms "[0..<length ms]"]
      by (simp add: updateDraft_closed_form[of env d b ms])
  next
    case (Inr dc)
    then show ?thesis
      by (simp add: updateDraft_closed_form[of env d b ms])
  qed
next
  assume h: "k < length ms \<and> pipelineAfter env d b ms k = Inr (dk, sk) \<and>
        (Apply (applyExternal env) (ms ! k) sk = Inl e \<or>
         (\<exists>applied task. Apply (applyExternal env) (ms ! k) sk = Inr (applied, task) \<and>
            draftUpdateResources env dk applied task = Inl e))"
  then have f: "pipelineStep env (dk, sk) (ms ! k) = Inl e"
    by (simp add: pipelineStep_Inl)
  from h have k: "k < length ms" and p: "pipelineAfter env d b ms k = Inr (dk, sk)"
    by simp_all
  note u = updateDraft_failure[OF k p f]
  then show "updateDraft env d b ms = (Inl e, concat (map (stepCalls env d b ms) [0..<Suc k]))" .
  show "CallClose \<notin> set (snd (updateDraft env d b ms))"
    unfolding u snd_conv by (rule CallClose_notin_steps)
next
  assume "pipelineAfter env d b ms (Suc j) = Inr (d', s')"
  then show "\<exists>dj sj task. pipelineAfter env d b ms j = Inr (dj, sj) \<and>
           Apply (applyExternal env) (ms ! j) sj = Inr (s', task) \<and>
           draftUpdateResources env dj s' task = Inr d'"
    by (rule pipelineAfter_Suc_Inr)
qed

theorem updateDraft_pipeline_witness:
  "Suc 0 < length [clonePackageMutation cloneTask ''foo'', evalFunctionMutation evalTask,
                   renderPackageMutation]
   \<and> pipelineAfter recordingCollaborators [] []
        [clonePackageMutation cloneTask ''foo'', evalFunctionMutation evalTask,
         renderPackageMutation] (Suc 0) =
      Inr ([([(''Kptfile'', ''foo'')], Some cloneTask)], [(''Kptfile'', ''foo'')])
   \<and> (\<exists>dj sj task.
        pipelineAfter recordingCollaborators [] []
          [clonePackageMutation cloneTask ''foo'', evalFunctionMutation evalTask,
           renderPackageMutation] 0 = Inr (dj, sj) \<and>
        Apply (applyExternal recordingCollaborators)
          ([clonePackageMutation cloneTask ''foo'', evalFunctionMutation evalTask,
            renderPackageMutation] ! 0) sj = Inr ([(''Kptfile'', ''foo'')], task) \<and>
        draftUpdateResources recordingCollaborators dj [(''Kptfile'', ''foo'')] task =
          Inr [([(''Kptfile'', ''foo'')], Some cloneTask)])
   \<and> Apply (applyExternal recordingCollaborators) (evalFunctionMutation evalTask)
        [(''Kptfile'', ''foo'')] = Inl (BackendError ''function runner failed'')
   \<and> updateDraft recordingCollaborators [] []
        [clonePackageMutation cloneTask ''foo'', evalFunctionMutation evalTask,
         renderPackageMutation] =
      (Inl (BackendError ''function runner failed''),
       [CallApply (clonePackageMutation cloneTask ''foo'') [],
        CallUpdateResources [(''Kptfile'', ''foo'')] (Some cloneTask),
        CallApply (evalFunctionMutation evalTask) [(''Kptfile'', ''foo'')]])
   \<and> CallClose \<notin> set (snd (updateDraft recordingCollaborators [] []
        [clonePackageMutation cloneTask ''foo'', evalFunctionMutation evalTask,
         renderPackageMutation]))"
proof -
  let ?ms = "[clonePackageMutation cloneTask ''foo'', evalFunctionMutation evalTask,
              renderPackageMutation]"
  have h1: "Suc 0 < length ?ms" by simp
  have h2: "pipelineAfter recordingCollaborators [] [] ?ms (Suc 0) =
      Inr ([([(''Kptfile'', ''foo'')], Some cloneTask)], [(''Kptfile'', ''foo'')])"
    by (simp add: pipelineStep_def Apply_def recordingCollaborators_def)
  have h3: "Apply (applyExternal recordingCollaborators) (?ms ! Suc 0)
        [(''Kptfile'', ''foo'')] = Inl (BackendError ''function runner failed'')"
    by (simp add: Apply_def recordingCollaborators_def)
  have c: "concat (map (stepCalls recordingCollaborators [] [] ?ms) [0..<Suc (Suc 0)]) =
       [CallApply (clonePackageMutation cloneTask ''foo'') [],
        CallUpdateResources [(''Kptfile'', ''foo'')] (Some cloneTask),
        CallApply (evalFunctionMutation evalTask) [(''Kptfile'', ''foo'')]]"
    by (simp add: stepCalls_def pipelineStep_def Apply_def recordingCollaborators_def)
  note t = updateDraft_pipeline[where env = recordingCollaborators and d = "[]" and b = "[]"
      and ms = ?ms and k = "Suc 0" and dk = "[([(''Kptfile'', ''foo'')], Some cloneTask)]"
      and sk = "[(''Kptfile'', ''foo'')]" and e = "BackendError ''function runner failed''"
      and j = 0 and d' = "[([(''Kptfile'', ''foo'')], Some cloneTask)]"
      and s' = "[(''Kptfile'', ''foo'')]"]
  have r: "updateDraft recordingCollaborators [] [] ?ms =
      (Inl (BackendError ''function runner failed''),
       concat (map (stepCalls recordingCollaborators [] [] ?ms) [0..<Suc (Suc 0)])) \<and>
      CallClose \<notin> set (snd (updateDraft recordingCollaborators [] [] ?ms))"
    by (rule mp[OF conjunct1[OF conjunct2[OF conjunct2[OF t]]]
          conjI[OF h1 conjI[OF h2 disjI1[OF h3]]]])
  note s = mp[OF conjunct2[OF conjunct2[OF conjunct2[OF t]]] h2]
  have h3': "Apply (applyExternal recordingCollaborators) (evalFunctionMutation evalTask)
        [(''Kptfile'', ''foo'')] = Inl (BackendError ''function runner failed'')"
    using h3 by simp
  from h1 h2 s h3' conjunct1[OF r, unfolded c] conjunct2[OF r]
  show ?thesis by (intro conjI)
qed

section \<open>The order of a listing\<close>

lemma strings_Compare_neg: "strings_Compare a b < 0 \<longleftrightarrow> a < b"
  by (simp add: strings_Compare_def)

lemma strings_Compare_pos: "strings_Compare a b > 0 \<longleftrightarrow> b < a"
  by (auto simp: strings_Compare_def)

lemma lessRevision_iff: "lessRevision a b \<longleftrightarrow> sortKey a < sortKey b"
  unfolding lessRevision_def sortKey_def Let_def strings_Compare_neg strings_Compare_pos
  by auto

lemma strictWeakOrder_lessRevision: "strictWeakOrder lessRevision"
  unfolding strictWeakOrder_def lessRevision_iff
  by (auto simp: not_less)

lemma sorted_wrt_lessRevision:
  "sorted_wrt (\<lambda>a b. \<not> lessRevision b a) xs \<longleftrightarrow> sorted (map sortKey xs)"
  unfolding lessRevision_iff not_less sorted_map ..

lemma sorted_key_unique:
  fixes f :: "'a \<Rightarrow> 'k::linorder"
  assumes m: "mset xs = mset ys"
    and sx: "sorted (map f xs)" and sy: "sorted (map f ys)"
    and inj: "inj_on f (set xs)"
  shows "xs = ys"
proof -
  from m have "mset (map f ys) = mset (map f xs)" by simp
  from properties_for_sort[OF this sy] have "sort (map f xs) = map f ys" .
  moreover from sx have "sort (map f xs) = map f xs" by (simp add: sort_key_id_if_sorted)
  ultimately have e: "map f xs = map f ys" by simp
  from m have "set ys = set xs" by (metis set_mset_mset)
  with inj have "inj_on f (set xs \<union> set ys)" by simp
  from inj_on_map_eq_map[OF this] e show ?thesis by simp
qed

lemma set_insertLess: "set (insertLess lt x xs) = insert x (set xs)"
  by (induction xs) auto

lemma mset_insertLess: "mset (insertLess lt x xs) = add_mset x (mset xs)"
  by (induction xs) auto

lemma mset_insertionSort: "mset (insertionSort lt xs) = mset xs"
  by (induction xs) (simp_all add: mset_insertLess)

lemma sorted_insertLess:
  assumes "strictWeakOrder lt" and "sorted_wrt (\<lambda>a b. \<not> lt b a) xs"
  shows "sorted_wrt (\<lambda>a b. \<not> lt b a) (insertLess lt x xs)"
  using assms(2)
proof (induction xs)
  case Nil
  then show ?case by simp
next
  case (Cons y ys)
  from assms(1) have irr: "\<And>a. \<not> lt a a" and tr: "\<And>a b c. lt a b \<Longrightarrow> lt b c \<Longrightarrow> lt a c"
    unfolding strictWeakOrder_def by blast+
  show ?case
  proof (cases "lt x y")
    case True
    have "\<not> lt y x" using True irr tr by blast
    moreover have "\<forall>z\<in>set ys. \<not> lt z x"
    proof
      fix z assume "z \<in> set ys"
      with Cons.prems have "\<not> lt z y" by simp
      with True tr show "\<not> lt z x" by blast
    qed
    ultimately show ?thesis using True Cons.prems by simp
  next
    case False
    with Cons show ?thesis by (simp add: set_insertLess)
  qed
qed

lemma sorted_insertionSort:
  "strictWeakOrder lt \<Longrightarrow> sorted_wrt (\<lambda>a b. \<not> lt b a) (insertionSort lt xs)"
  by (induction xs) (simp_all add: sorted_insertLess)

lemma insertionSort_contract: "sortSliceContract insertionSort"
  unfolding sortSliceContract_def
  by (simp add: mset_insertionSort sorted_insertionSort)

text \<open>
  C6: with a \<^verbatim>\<open>sort.Slice\<close> that meets its contract, the listing routine returns exactly
  the cached revisions that match the filter, sorted ascending by Package, then by the raw
  Revision string, then by the Lifecycle string, then by \<^verbatim>\<open>KubeObjectName\<close> (the
  lexicographic order of \<open>sortKey\<close>, strings compared bytewise). For a set of cached
  revisions (no two of them with the same four fields, as when no two have the same stable
  object identifier), the returned list is the same for every arrival order of the input,
  and for every sort that meets the contract, stable or not.
\<close>

theorem toPackageRevisionSlice_sorted:
  assumes "sortSliceContract srt"
  shows "mset (toPackageRevisionSlice srt (Some cached) flt) = mset (filter flt cached)
       \<and> sorted (map sortKey (toPackageRevisionSlice srt (Some cached) flt))
       \<and> (sortSliceContract srt' \<and> mset cached' = mset cached \<and> inj_on sortKey (set cached) \<longrightarrow>
            toPackageRevisionSlice srt' (Some cached') flt =
            toPackageRevisionSlice srt (Some cached) flt)"
proof -
  have c: "mset (s lessRevision xs) = mset xs \<and> sorted (map sortKey (s lessRevision xs))"
    if "sortSliceContract s" for s and xs :: "cachedPackageRevision list"
    using that strictWeakOrder_lessRevision
    unfolding sortSliceContract_def sorted_wrt_lessRevision[symmetric] by blast
  have a: "mset (toPackageRevisionSlice srt (Some cached) flt) = mset (filter flt cached)"
    and b: "sorted (map sortKey (toPackageRevisionSlice srt (Some cached) flt))"
    using c[OF assms, of "filter flt cached"]
    by (simp_all add: toPackageRevisionSlice_def elems_def)
  have d: "toPackageRevisionSlice srt' (Some cached') flt =
            toPackageRevisionSlice srt (Some cached) flt"
    if s': "sortSliceContract srt'" and m: "mset cached' = mset cached"
      and inj: "inj_on sortKey (set cached)"
  proof -
    have a': "mset (toPackageRevisionSlice srt' (Some cached') flt) = mset (filter flt cached')"
      and b': "sorted (map sortKey (toPackageRevisionSlice srt' (Some cached') flt))"
      using c[OF s', of "filter flt cached'"]
      by (simp_all add: toPackageRevisionSlice_def elems_def)
    from m have "mset (filter flt cached') = mset (filter flt cached)"
      by (metis mset_filter)
    with a a' have e: "mset (toPackageRevisionSlice srt' (Some cached') flt) =
        mset (toPackageRevisionSlice srt (Some cached) flt)" by simp
    have "set (toPackageRevisionSlice srt' (Some cached') flt) \<subseteq> set cached"
      using a' m by (metis filter_is_subset mset_eq_setD set_mset_mset)
    with inj have "inj_on sortKey (set (toPackageRevisionSlice srt' (Some cached') flt))"
      by (rule inj_on_subset)
    from sorted_key_unique[OF e b' b this] show ?thesis .
  qed
  from a b d show ?thesis by blast
qed

theorem toPackageRevisionSlice_sorted_witness:
  "sortSliceContract (insertionSort ::
      (cachedPackageRevision \<Rightarrow> cachedPackageRevision \<Rightarrow> bool) \<Rightarrow> cachedPackageRevision list \<Rightarrow> cachedPackageRevision list)
   \<and> mset [cachedOf ''bar'' ''v1'' ''Published'' True, cachedOf ''foo'' ''v2'' ''Published'' True,
            cachedOf ''foo'' ''v10'' ''Draft'' False] =
     mset [cachedOf ''foo'' ''v2'' ''Published'' True, cachedOf ''foo'' ''v10'' ''Draft'' False,
           cachedOf ''bar'' ''v1'' ''Published'' True]
   \<and> inj_on sortKey (set [cachedOf ''foo'' ''v2'' ''Published'' True,
        cachedOf ''foo'' ''v10'' ''Draft'' False, cachedOf ''bar'' ''v1'' ''Published'' True])
   \<and> toPackageRevisionSlice insertionSort
        (Some [cachedOf ''foo'' ''v2'' ''Published'' True, cachedOf ''foo'' ''v10'' ''Draft'' False,
               cachedOf ''bar'' ''v1'' ''Published'' True]) (\<lambda>c. True) =
       [cachedOf ''bar'' ''v1'' ''Published'' True, cachedOf ''foo'' ''v10'' ''Draft'' False,
        cachedOf ''foo'' ''v2'' ''Published'' True]
   \<and> toPackageRevisionSlice insertionSort
        (Some [cachedOf ''bar'' ''v1'' ''Published'' True, cachedOf ''foo'' ''v2'' ''Published'' True,
               cachedOf ''foo'' ''v10'' ''Draft'' False]) (\<lambda>c. True) =
       [cachedOf ''bar'' ''v1'' ''Published'' True, cachedOf ''foo'' ''v10'' ''Draft'' False,
        cachedOf ''foo'' ''v2'' ''Published'' True]"
proof -
  let ?a = "cachedOf ''foo'' ''v2'' ''Published'' True"
  let ?b = "cachedOf ''foo'' ''v10'' ''Draft'' False"
  let ?c = "cachedOf ''bar'' ''v1'' ''Published'' True"
  let ?srt = "insertionSort ::
      (cachedPackageRevision \<Rightarrow> cachedPackageRevision \<Rightarrow> bool) \<Rightarrow> cachedPackageRevision list \<Rightarrow> cachedPackageRevision list"
  have h1: "sortSliceContract ?srt" by (rule insertionSort_contract)
  have h2: "mset [?c, ?a, ?b] = mset [?a, ?b, ?c]" by simp
  have h3: "inj_on sortKey (set [?a, ?b, ?c])"
    by (simp add: sortKey_def cachedOf_def revisionOf_def)
  have ba: "lessRevision ?b ?a" and cb: "lessRevision ?c ?b" and ca: "lessRevision ?c ?a"
    and ab: "\<not> lessRevision ?a ?b" and bc: "\<not> lessRevision ?b ?c" and ac: "\<not> lessRevision ?a ?c"
    by (simp_all add: lessRevision_iff sortKey_def cachedOf_def revisionOf_def)
  have e: "toPackageRevisionSlice ?srt (Some [?a, ?b, ?c]) (\<lambda>c. True) = [?c, ?b, ?a]"
    by (simp add: toPackageRevisionSlice_def elems_def ba cb ca ab bc ac)
  note t = toPackageRevisionSlice_sorted[OF h1, of "[?a, ?b, ?c]" "\<lambda>c. True" ?srt "[?c, ?a, ?b]"]
  have "toPackageRevisionSlice ?srt (Some [?c, ?a, ?b]) (\<lambda>c. True) =
        toPackageRevisionSlice ?srt (Some [?a, ?b, ?c]) (\<lambda>c. True)"
    by (rule mp[OF conjunct2[OF conjunct2[OF t]] conjI[OF h1 conjI[OF h2 h3]]])
  then have e': "toPackageRevisionSlice ?srt (Some [?c, ?a, ?b]) (\<lambda>c. True) = [?c, ?b, ?a]"
    unfolding e .
  from h1 h2 h3 e e' show ?thesis by (intro conjI)
qed

section \<open>The latest revision of a package\<close>

lemma semver_refl: "semverContract cmp valid \<Longrightarrow> cmp v v = 0"
proof -
  assume "semverContract cmp valid"
  then have "cmp v v = - cmp v v" unfolding semverContract_def by blast
  then show ?thesis by simp
qed

lemma semver_invalid_less:
  "semverContract cmp valid \<Longrightarrow> \<not> valid v \<Longrightarrow> valid w \<Longrightarrow> cmp v w < 0"
  unfolding semverContract_def by blast

lemma semver_flip: "semverContract cmp valid \<Longrightarrow> cmp w v = - cmp v w"
  unfolding semverContract_def by blast

lemma semver_trans:
  "semverContract cmp valid \<Longrightarrow> cmp u v \<le> 0 \<Longrightarrow> cmp v w \<le> 0 \<Longrightarrow> cmp u w \<le> 0"
  unfolding semverContract_def by blast

lemma semver_greater_valid:
  assumes "semverContract cmp valid" and "valid w" and "cmp v w > 0"
  shows "valid v"
proof (rule ccontr)
  assume "\<not> valid v"
  from semver_invalid_less[OF assms(1) this assms(2)] assms(3) show False by simp
qed

lemma semver_strict:
  assumes c: "semverContract cmp valid" and a: "cmp u v \<le> 0" and b: "cmp v w < 0"
  shows "cmp u w < 0"
proof (rule ccontr)
  assume "\<not> cmp u w < 0"
  then have "cmp w u \<le> 0" using semver_flip[OF c, of w u] by simp
  from semver_trans[OF c this a] have "cmp w v \<le> 0" .
  then have "cmp v w \<ge> 0" using semver_flip[OF c, of v w] by simp
  with b show False by simp
qed

lemma latestAfter_Suc:
  "latestAfter cmp valid result (Suc n) =
   latestStep cmp valid result (latestAfter cmp valid result n) n"
  by (simp add: latestAfter_def)

lemma latestInv_0: "latestInv cmp valid result 0 []"
  by (simp add: latestInv_def)

lemma latestInv_keep:
  assumes inv: "latestInv cmp valid result n latest"
    and new: "published (result ! n) \<Longrightarrow>
      (case map_of latest (Package (cKey (result ! n))) of
         Some w \<Rightarrow> cmp (Revision (cKey (result ! n))) (Revision (cKey (result ! w))) \<le> 0
       | None \<Rightarrow> \<not> valid (Revision (cKey (result ! n))))"
  shows "latestInv cmp valid result (Suc n) latest"
  unfolding latestInv_def
proof (intro conjI)
  from inv show "distinct (map fst latest)" by (simp add: latestInv_def)
next
  show "\<forall>p w. map_of latest p = Some w \<longrightarrow>
      w < Suc n \<and> Package (cKey (result ! w)) = p \<and> published (result ! w) \<and>
      valid (Revision (cKey (result ! w))) \<and>
      (\<forall>j<Suc n. published (result ! j) \<and> Package (cKey (result ! j)) = p \<longrightarrow>
         cmp (Revision (cKey (result ! j))) (Revision (cKey (result ! w))) \<le> 0) \<and>
      (\<forall>j<w. published (result ! j) \<and> Package (cKey (result ! j)) = p \<longrightarrow>
         cmp (Revision (cKey (result ! j))) (Revision (cKey (result ! w))) < 0)"
  proof (intro allI impI)
    fix p w assume s: "map_of latest p = Some w"
    from inv s have w: "w < n" "Package (cKey (result ! w)) = p" "published (result ! w)"
      "valid (Revision (cKey (result ! w)))"
      and le: "\<And>j. j < n \<Longrightarrow> published (result ! j) \<and> Package (cKey (result ! j)) = p \<Longrightarrow>
           cmp (Revision (cKey (result ! j))) (Revision (cKey (result ! w))) \<le> 0"
      and lt: "\<And>j. j < w \<Longrightarrow> published (result ! j) \<and> Package (cKey (result ! j)) = p \<Longrightarrow>
           cmp (Revision (cKey (result ! j))) (Revision (cKey (result ! w))) < 0"
      unfolding latestInv_def by blast+
    have "cmp (Revision (cKey (result ! j))) (Revision (cKey (result ! w))) \<le> 0"
      if j: "j < Suc n" and pj: "published (result ! j) \<and> Package (cKey (result ! j)) = p" for j
    proof (cases "j = n")
      case True
      with pj new s show ?thesis by simp
    next
      case False
      with j have "j < n" by simp
      from le[OF this pj] show ?thesis .
    qed
    then show "w < Suc n \<and> Package (cKey (result ! w)) = p \<and> published (result ! w) \<and>
      valid (Revision (cKey (result ! w))) \<and>
      (\<forall>j<Suc n. published (result ! j) \<and> Package (cKey (result ! j)) = p \<longrightarrow>
         cmp (Revision (cKey (result ! j))) (Revision (cKey (result ! w))) \<le> 0) \<and>
      (\<forall>j<w. published (result ! j) \<and> Package (cKey (result ! j)) = p \<longrightarrow>
         cmp (Revision (cKey (result ! j))) (Revision (cKey (result ! w))) < 0)"
      using w lt by simp
  qed
next
  show "\<forall>p. map_of latest p = None \<longrightarrow>
      (\<forall>j<Suc n. published (result ! j) \<and> Package (cKey (result ! j)) = p \<longrightarrow>
         \<not> valid (Revision (cKey (result ! j))))"
  proof (intro allI impI)
    fix p j assume s: "map_of latest p = None" and j: "j < Suc n"
      and pj: "published (result ! j) \<and> Package (cKey (result ! j)) = p"
    from inv s have none: "\<And>j. j < n \<Longrightarrow> published (result ! j) \<and> Package (cKey (result ! j)) = p \<Longrightarrow>
        \<not> valid (Revision (cKey (result ! j)))"
      unfolding latestInv_def by blast
    show "\<not> valid (Revision (cKey (result ! j)))"
    proof (cases "j = n")
      case True
      with pj new s show ?thesis by simp
    next
      case False
      with j have "j < n" by simp
      from none[OF this pj] show ?thesis .
    qed
  qed
qed

lemma latestInv_replace:
  assumes c: "semverContract cmp valid"
    and inv: "latestInv cmp valid result n latest"
    and pub: "published (result ! n)"
    and val: "valid (Revision (cKey (result ! n)))"
    and gt: "\<And>j. j < n \<Longrightarrow> published (result ! j) \<Longrightarrow>
        Package (cKey (result ! j)) = Package (cKey (result ! n)) \<Longrightarrow>
        cmp (Revision (cKey (result ! j))) (Revision (cKey (result ! n))) < 0"
  shows "latestInv cmp valid result (Suc n)
           (AList.update (Package (cKey (result ! n))) n latest)"
  unfolding latestInv_def update_conv'
proof (intro conjI)
  from inv show "distinct (map fst (AList.update (Package (cKey (result ! n))) n latest))"
    by (simp add: latestInv_def distinct_update)
next
  show "\<forall>p w. ((map_of latest)(Package (cKey (result ! n)) \<mapsto> n)) p = Some w \<longrightarrow>
        w < Suc n \<and> Package (cKey (result ! w)) = p \<and> published (result ! w) \<and>
        valid (Revision (cKey (result ! w))) \<and>
        (\<forall>j<Suc n. published (result ! j) \<and> Package (cKey (result ! j)) = p \<longrightarrow>
           cmp (Revision (cKey (result ! j))) (Revision (cKey (result ! w))) \<le> 0) \<and>
        (\<forall>j<w. published (result ! j) \<and> Package (cKey (result ! j)) = p \<longrightarrow>
           cmp (Revision (cKey (result ! j))) (Revision (cKey (result ! w))) < 0)"
  proof (intro allI impI)
    fix p w
    assume s: "((map_of latest)(Package (cKey (result ! n)) \<mapsto> n)) p = Some w"
    show "w < Suc n \<and> Package (cKey (result ! w)) = p \<and> published (result ! w) \<and>
          valid (Revision (cKey (result ! w))) \<and>
          (\<forall>j<Suc n. published (result ! j) \<and> Package (cKey (result ! j)) = p \<longrightarrow>
             cmp (Revision (cKey (result ! j))) (Revision (cKey (result ! w))) \<le> 0) \<and>
          (\<forall>j<w. published (result ! j) \<and> Package (cKey (result ! j)) = p \<longrightarrow>
             cmp (Revision (cKey (result ! j))) (Revision (cKey (result ! w))) < 0)"
    proof (cases "p = Package (cKey (result ! n))")
      case True
      with s have w: "w = n" by simp
      have "cmp (Revision (cKey (result ! j))) (Revision (cKey (result ! n))) \<le> 0"
        if "j < Suc n" "published (result ! j)" "Package (cKey (result ! j)) = p" for j
      proof (cases "j = n")
        case True
        then show ?thesis by (simp add: semver_refl[OF c])
      next
        case False
        with that(1) have "j < n" by simp
        from gt[OF this that(2)] that(3) \<open>p = Package (cKey (result ! n))\<close>
        show ?thesis by simp
      qed
      moreover have "cmp (Revision (cKey (result ! j))) (Revision (cKey (result ! n))) < 0"
        if "j < n" "published (result ! j)" "Package (cKey (result ! j)) = p" for j
        using gt[OF that(1,2)] that(3) True by simp
      ultimately show ?thesis using w True pub val by simp
    next
      case False
      with s have s': "map_of latest p = Some w" by simp
      from inv s' have w: "w < n" "Package (cKey (result ! w)) = p" "published (result ! w)"
        "valid (Revision (cKey (result ! w)))"
        and le: "\<And>j. j < n \<Longrightarrow> published (result ! j) \<and> Package (cKey (result ! j)) = p \<Longrightarrow>
             cmp (Revision (cKey (result ! j))) (Revision (cKey (result ! w))) \<le> 0"
        and lt: "\<And>j. j < w \<Longrightarrow> published (result ! j) \<and> Package (cKey (result ! j)) = p \<Longrightarrow>
             cmp (Revision (cKey (result ! j))) (Revision (cKey (result ! w))) < 0"
        unfolding latestInv_def by blast+
      have "cmp (Revision (cKey (result ! j))) (Revision (cKey (result ! w))) \<le> 0"
        if "j < Suc n" "published (result ! j) \<and> Package (cKey (result ! j)) = p" for j
      proof (cases "j = n")
        case True
        with that(2) False show ?thesis by simp
      next
        case False
        with that(1) have "j < n" by simp
        from le[OF this that(2)] show ?thesis .
      qed
      then show ?thesis using w lt by simp
    qed
  qed
next
  show "\<forall>p. ((map_of latest)(Package (cKey (result ! n)) \<mapsto> n)) p = None \<longrightarrow>
        (\<forall>j<Suc n. published (result ! j) \<and> Package (cKey (result ! j)) = p \<longrightarrow>
           \<not> valid (Revision (cKey (result ! j))))"
  proof (intro allI impI)
    fix p j
    assume s: "((map_of latest)(Package (cKey (result ! n)) \<mapsto> n)) p = None"
      and j: "j < Suc n"
      and pj: "published (result ! j) \<and> Package (cKey (result ! j)) = p"
    from s have ne: "p \<noteq> Package (cKey (result ! n))" and s': "map_of latest p = None"
      by (auto split: if_splits)
    from inv s' have none: "\<And>j. j < n \<Longrightarrow> published (result ! j) \<and> Package (cKey (result ! j)) = p \<Longrightarrow>
        \<not> valid (Revision (cKey (result ! j)))"
      unfolding latestInv_def by blast
    from ne pj have "j \<noteq> n" by auto
    with j have "j < n" by simp
    from none[OF this pj] show "\<not> valid (Revision (cKey (result ! j)))" .
  qed
qed

lemma latestInv_step:
  assumes c: "semverContract cmp valid"
    and inv: "latestInv cmp valid result n latest"
  shows "latestInv cmp valid result (Suc n) (latestStep cmp valid result latest n)"
proof (cases "published (result ! n)")
  case False
  then have "latestStep cmp valid result latest n = latest"
    by (simp add: latestStep_def)
  moreover from False have "latestInv cmp valid result (Suc n) latest"
    by (intro latestInv_keep[OF inv]) simp
  ultimately show ?thesis by simp
next
  case pub: True
  show ?thesis
  proof (cases "map_of latest (Package (cKey (result ! n)))")
    case None
    from inv None have none: "\<And>j. j < n \<Longrightarrow>
        published (result ! j) \<and> Package (cKey (result ! j)) = Package (cKey (result ! n)) \<Longrightarrow>
        \<not> valid (Revision (cKey (result ! j)))"
      unfolding latestInv_def by blast
    show ?thesis
    proof (cases "valid (Revision (cKey (result ! n)))")
      case True
      have "latestStep cmp valid result latest n =
          AList.update (Package (cKey (result ! n))) n latest"
        using pub None True by (simp add: latestStep_def)
      moreover have "latestInv cmp valid result (Suc n)
          (AList.update (Package (cKey (result ! n))) n latest)"
      proof (rule latestInv_replace[OF c inv pub True])
        fix j assume "j < n" "published (result ! j)"
          "Package (cKey (result ! j)) = Package (cKey (result ! n))"
        with none have "\<not> valid (Revision (cKey (result ! j)))" by blast
        from semver_invalid_less[OF c this True]
        show "cmp (Revision (cKey (result ! j))) (Revision (cKey (result ! n))) < 0" .
      qed
      ultimately show ?thesis by simp
    next
      case False
      have "latestStep cmp valid result latest n = latest"
        using pub None False by (simp add: latestStep_def)
      moreover have "latestInv cmp valid result (Suc n) latest"
        using None False by (intro latestInv_keep[OF inv]) simp
      ultimately show ?thesis by simp
    qed
  next
    case (Some w)
    from inv Some have w: "valid (Revision (cKey (result ! w)))"
      and le: "\<And>j. j < n \<Longrightarrow>
          published (result ! j) \<and> Package (cKey (result ! j)) = Package (cKey (result ! n)) \<Longrightarrow>
          cmp (Revision (cKey (result ! j))) (Revision (cKey (result ! w))) \<le> 0"
      unfolding latestInv_def by blast+
    show ?thesis
    proof (cases "cmp (Revision (cKey (result ! n))) (Revision (cKey (result ! w))) > 0")
      case True
      have "latestStep cmp valid result latest n =
          AList.update (Package (cKey (result ! n))) n latest"
        using pub Some True by (simp add: latestStep_def Let_def)
      moreover have "latestInv cmp valid result (Suc n)
          (AList.update (Package (cKey (result ! n))) n latest)"
      proof (rule latestInv_replace[OF c inv pub])
        from semver_greater_valid[OF c w True]
        show "valid (Revision (cKey (result ! n)))" .
      next
        fix j assume j: "j < n" "published (result ! j)"
          "Package (cKey (result ! j)) = Package (cKey (result ! n))"
        then have a: "cmp (Revision (cKey (result ! j))) (Revision (cKey (result ! w))) \<le> 0"
          using le by blast
        from True have b: "cmp (Revision (cKey (result ! w))) (Revision (cKey (result ! n))) < 0"
          using semver_flip[OF c, of "Revision (cKey (result ! w))" "Revision (cKey (result ! n))"]
          by simp
        from semver_strict[OF c a b]
        show "cmp (Revision (cKey (result ! j))) (Revision (cKey (result ! n))) < 0" .
      qed
      ultimately show ?thesis by simp
    next
      case False
      have "latestStep cmp valid result latest n = latest"
        using pub Some False by (auto simp: latestStep_def Let_def)
      moreover have "latestInv cmp valid result (Suc n) latest"
        using Some False by (intro latestInv_keep[OF inv]) simp
      ultimately show ?thesis by simp
    qed
  qed
qed

lemma latestInv_latestAfter:
  assumes "semverContract cmp valid"
  shows "latestInv cmp valid result n (latestAfter cmp valid result n)"
proof (induction n)
  case 0
  show ?case by (simp add: latestAfter_def latestInv_0)
next
  case (Suc n)
  from latestInv_step[OF assms Suc] show ?case by (simp add: latestAfter_Suc)
qed

lemma slot_iff:
  assumes "latestInv cmp valid result n latest"
  shows "i \<in> snd ` set latest \<longleftrightarrow> (\<exists>p. map_of latest p = Some i)"
proof -
  from assms have "distinct (map fst latest)" by (simp add: latestInv_def)
  then have "\<And>p. map_of latest p = Some i \<longleftrightarrow> (p, i) \<in> set latest" by simp
  then show ?thesis by (auto simp: image_iff) force
qed

lemma winner_facts:
  assumes inv: "latestInv cmp valid result n latest" and i: "i \<in> snd ` set latest"
  shows "i < n" and "published (result ! i)" and "valid (Revision (cKey (result ! i)))"
    and "map_of latest (Package (cKey (result ! i))) = Some i"
    and "\<And>j. j < n \<Longrightarrow> published (result ! j) \<Longrightarrow>
          Package (cKey (result ! j)) = Package (cKey (result ! i)) \<Longrightarrow>
          cmp (Revision (cKey (result ! j))) (Revision (cKey (result ! i))) \<le> 0"
    and "\<And>j. j < i \<Longrightarrow> published (result ! j) \<Longrightarrow>
          Package (cKey (result ! j)) = Package (cKey (result ! i)) \<Longrightarrow>
          cmp (Revision (cKey (result ! j))) (Revision (cKey (result ! i))) < 0"
proof -
  from slot_iff[OF inv] i obtain p where p: "map_of latest p = Some i" by blast
  from inv p have f: "i < n" "Package (cKey (result ! i)) = p" "published (result ! i)"
    "valid (Revision (cKey (result ! i)))"
    and le: "\<And>j. j < n \<Longrightarrow> published (result ! j) \<and> Package (cKey (result ! j)) = p \<Longrightarrow>
         cmp (Revision (cKey (result ! j))) (Revision (cKey (result ! i))) \<le> 0"
    and lt: "\<And>j. j < i \<Longrightarrow> published (result ! j) \<and> Package (cKey (result ! j)) = p \<Longrightarrow>
         cmp (Revision (cKey (result ! j))) (Revision (cKey (result ! i))) < 0"
    unfolding latestInv_def by blast+
  from f show "i < n" "published (result ! i)" "valid (Revision (cKey (result ! i)))"
    by simp_all
  from p f(2) show "map_of latest (Package (cKey (result ! i))) = Some i" by simp
  show "cmp (Revision (cKey (result ! j))) (Revision (cKey (result ! i))) \<le> 0"
    if "j < n" "published (result ! j)"
      "Package (cKey (result ! j)) = Package (cKey (result ! i))" for j
    using le[of j] that f(2) by simp
  show "cmp (Revision (cKey (result ! j))) (Revision (cKey (result ! i))) < 0"
    if "j < i" "published (result ! j)"
      "Package (cKey (result ! j)) = Package (cKey (result ! i))" for j
    using lt[of j] that f(2) by simp
qed

lemma winner_exists:
  assumes inv: "latestInv cmp valid result n latest"
    and j: "j < n" "published (result ! j)" "valid (Revision (cKey (result ! j)))"
  shows "\<exists>i. i \<in> snd ` set latest \<and> Package (cKey (result ! i)) = Package (cKey (result ! j))"
proof (cases "map_of latest (Package (cKey (result ! j)))")
  case None
  with inv j have False unfolding latestInv_def by blast
  then show ?thesis ..
next
  case (Some w)
  with inv have "Package (cKey (result ! w)) = Package (cKey (result ! j))"
    unfolding latestInv_def by blast
  moreover from Some have "w \<in> snd ` set latest"
    using slot_iff[OF inv, of w] by blast
  ultimately show ?thesis by blast
qed

lemma identifyLatestRevisions_length:
  "length (identifyLatestRevisions cmp valid result) = length result"
  by (simp add: identifyLatestRevisions_def)

lemma identifyLatestRevisions_nth:
  "i < length result \<Longrightarrow>
   identifyLatestRevisions cmp valid result ! i =
     (result ! i)\<lparr>isLatestRevision :=
        (i \<in> snd ` set (latestAfter cmp valid result (length result)))\<rparr>"
  by (simp add: identifyLatestRevisions_def)

text \<open>
  C3: with a \<^verbatim>\<open>semver\<close> that meets its contract, after \<^verbatim>\<open>identifyLatestRevisions\<close> the
  list has the same revisions in the same places, only the flags differ, and: at most one
  entry per package name is flagged latest; a flagged entry is Published, its revision
  string is valid semver, no Published revision of its package compares greater, and every
  Published revision of its package that comes before it in the list compares strictly
  less (of revisions that compare equal, the earlier-seen one stays latest); every package
  with a Published valid revision has a flagged entry; and at no point of the loop does
  the slot of a package point to a revision whose string is not valid semver.
\<close>

theorem identifyLatestRevisions_latest:
  assumes c: "semverContract cmp valid"
    and out: "out = identifyLatestRevisions cmp valid result"
  shows "length out = length result
    \<and> (\<forall>i<length out. PackageRevision (out ! i) = PackageRevision (result ! i))
    \<and> (\<forall>i<length out. \<forall>j<length out.
          isLatestRevision (out ! i) \<and> isLatestRevision (out ! j) \<and>
          Package (cKey (out ! i)) = Package (cKey (out ! j)) \<longrightarrow> i = j)
    \<and> (\<forall>i<length out. isLatestRevision (out ! i) \<longrightarrow>
          published (out ! i) \<and> valid (Revision (cKey (out ! i))) \<and>
          (\<forall>j<length out. published (out ! j) \<and>
               Package (cKey (out ! j)) = Package (cKey (out ! i)) \<longrightarrow>
               cmp (Revision (cKey (out ! j))) (Revision (cKey (out ! i))) \<le> 0) \<and>
          (\<forall>j<i. published (out ! j) \<and>
               Package (cKey (out ! j)) = Package (cKey (out ! i)) \<longrightarrow>
               cmp (Revision (cKey (out ! j))) (Revision (cKey (out ! i))) < 0))
    \<and> (\<forall>j<length out. published (out ! j) \<and> valid (Revision (cKey (out ! j))) \<longrightarrow>
          (\<exists>i<length out. isLatestRevision (out ! i) \<and>
               Package (cKey (out ! i)) = Package (cKey (out ! j))))
    \<and> (\<forall>n p w. map_of (latestAfter cmp valid result n) p = Some w \<longrightarrow>
          valid (Revision (cKey (result ! w))))"
proof -
  let ?n = "length result"
  let ?L = "latestAfter cmp valid result ?n"
  have inv: "latestInv cmp valid result ?n ?L" by (rule latestInv_latestAfter[OF c])
  have len: "length out = ?n" by (simp add: out identifyLatestRevisions_length)
  have pr: "PackageRevision (out ! i) = PackageRevision (result ! i)" if "i < ?n" for i
    using that by (simp add: out identifyLatestRevisions_nth)
  have fl: "isLatestRevision (out ! i) \<longleftrightarrow> i \<in> snd ` set ?L" if "i < ?n" for i
    using that by (simp add: out identifyLatestRevisions_nth)
  have uniq: "i = j"
    if "i < ?n" "j < ?n" "isLatestRevision (out ! i)" "isLatestRevision (out ! j)"
      "Package (cKey (out ! i)) = Package (cKey (out ! j))" for i j
  proof -
    from that fl have wi: "i \<in> snd ` set ?L" and wj: "j \<in> snd ` set ?L" by simp_all
    have e: "Package (cKey (result ! i)) = Package (cKey (result ! j))"
      using that(5) unfolding pr[OF that(1)] pr[OF that(2)] .
    have si: "map_of ?L (Package (cKey (result ! j))) = Some i"
      using winner_facts(4)[OF inv wi] unfolding e .
    have sj: "map_of ?L (Package (cKey (result ! j))) = Some j"
      by (rule winner_facts(4)[OF inv wj])
    have "Some i = Some j" by (rule trans[OF si[symmetric] sj])
    then show ?thesis by (rule option.inject[THEN iffD1])
  qed
  have best: "published (out ! i) \<and> valid (Revision (cKey (out ! i))) \<and>
          (\<forall>j<length out. published (out ! j) \<and>
               Package (cKey (out ! j)) = Package (cKey (out ! i)) \<longrightarrow>
               cmp (Revision (cKey (out ! j))) (Revision (cKey (out ! i))) \<le> 0) \<and>
          (\<forall>j<i. published (out ! j) \<and>
               Package (cKey (out ! j)) = Package (cKey (out ! i)) \<longrightarrow>
               cmp (Revision (cKey (out ! j))) (Revision (cKey (out ! i))) < 0)"
    if i: "i < ?n" and f: "isLatestRevision (out ! i)" for i
  proof -
    from i f fl have wi: "i \<in> snd ` set ?L" by simp
    note w = winner_facts[OF inv wi]
    have a: "published (out ! i)" "valid (Revision (cKey (out ! i)))"
      using w(2,3) pr[OF i] by simp_all
    have b: "cmp (Revision (cKey (out ! j))) (Revision (cKey (out ! i))) \<le> 0"
      if "j < ?n" "published (out ! j)" "Package (cKey (out ! j)) = Package (cKey (out ! i))"
      for j
      using w(5)[of j] that pr[OF i] pr[OF that(1)] by simp
    have d: "cmp (Revision (cKey (out ! j))) (Revision (cKey (out ! i))) < 0"
      if "j < i" "published (out ! j)" "Package (cKey (out ! j)) = Package (cKey (out ! i))"
      for j
    proof -
      from that(1) i have "j < ?n" by simp
      with w(6)[of j] that pr[OF i] pr[of j] show ?thesis by simp
    qed
    from a b d show ?thesis by (simp add: len)
  qed
  have ex: "\<exists>i<length out. isLatestRevision (out ! i) \<and>
               Package (cKey (out ! i)) = Package (cKey (out ! j))"
    if j: "j < ?n" and pj: "published (out ! j)" "valid (Revision (cKey (out ! j)))" for j
  proof -
    from pj pr[OF j] have "published (result ! j)" "valid (Revision (cKey (result ! j)))"
      by simp_all
    from winner_exists[OF inv j this] obtain i
      where wi: "i \<in> snd ` set ?L"
        and pk: "Package (cKey (result ! i)) = Package (cKey (result ! j))" by blast
    from winner_facts(1)[OF inv wi] have i: "i < ?n" .
    with wi fl have "isLatestRevision (out ! i)" by simp
    moreover from pk pr[OF i] pr[OF j]
    have "Package (cKey (out ! i)) = Package (cKey (out ! j))" by simp
    ultimately show ?thesis using i len by auto
  qed
  have seeds: "valid (Revision (cKey (result ! w)))"
    if "map_of (latestAfter cmp valid result n) p = Some w" for n p w
    using latestInv_latestAfter[OF c, of result n] that unfolding latestInv_def by blast
  show ?thesis
  proof (intro conjI)
    show "length out = length result" by (rule len)
  next
    show "\<forall>i<length out. PackageRevision (out ! i) = PackageRevision (result ! i)"
      using pr by (simp add: len)
  next
    show "\<forall>i<length out. \<forall>j<length out.
          isLatestRevision (out ! i) \<and> isLatestRevision (out ! j) \<and>
          Package (cKey (out ! i)) = Package (cKey (out ! j)) \<longrightarrow> i = j"
    proof (intro allI impI, elim conjE)
      fix i j
      assume "i < length out" "j < length out" "isLatestRevision (out ! i)"
        "isLatestRevision (out ! j)" "Package (cKey (out ! i)) = Package (cKey (out ! j))"
      then show "i = j" using uniq[of i j] by (simp add: len)
    qed
  next
    show "\<forall>i<length out. isLatestRevision (out ! i) \<longrightarrow>
          published (out ! i) \<and> valid (Revision (cKey (out ! i))) \<and>
          (\<forall>j<length out. published (out ! j) \<and>
               Package (cKey (out ! j)) = Package (cKey (out ! i)) \<longrightarrow>
               cmp (Revision (cKey (out ! j))) (Revision (cKey (out ! i))) \<le> 0) \<and>
          (\<forall>j<i. published (out ! j) \<and>
               Package (cKey (out ! j)) = Package (cKey (out ! i)) \<longrightarrow>
               cmp (Revision (cKey (out ! j))) (Revision (cKey (out ! i))) < 0)"
    proof (intro allI impI)
      fix i assume "i < length out" "isLatestRevision (out ! i)"
      then have "i < ?n" "isLatestRevision (out ! i)" by (simp_all add: len)
      then show "published (out ! i) \<and> valid (Revision (cKey (out ! i))) \<and>
          (\<forall>j<length out. published (out ! j) \<and>
               Package (cKey (out ! j)) = Package (cKey (out ! i)) \<longrightarrow>
               cmp (Revision (cKey (out ! j))) (Revision (cKey (out ! i))) \<le> 0) \<and>
          (\<forall>j<i. published (out ! j) \<and>
               Package (cKey (out ! j)) = Package (cKey (out ! i)) \<longrightarrow>
               cmp (Revision (cKey (out ! j))) (Revision (cKey (out ! i))) < 0)"
        by (rule best)
    qed
  next
    show "\<forall>j<length out. published (out ! j) \<and> valid (Revision (cKey (out ! j))) \<longrightarrow>
          (\<exists>i<length out. isLatestRevision (out ! i) \<and>
               Package (cKey (out ! i)) = Package (cKey (out ! j)))"
    proof (intro allI impI, elim conjE)
      fix j assume "j < length out" "published (out ! j)" "valid (Revision (cKey (out ! j)))"
      then have "j < ?n" "published (out ! j)" "valid (Revision (cKey (out ! j)))"
        by (simp_all add: len)
      then show "\<exists>i<length out. isLatestRevision (out ! i) \<and>
               Package (cKey (out ! i)) = Package (cKey (out ! j))"
        by (rule ex)
    qed
  next
    show "\<forall>n p w. map_of (latestAfter cmp valid result n) p = Some w \<longrightarrow>
          valid (Revision (cKey (result ! w)))"
      using seeds by blast
  qed
qed

lemma numeric_contract: "semverContract numericCompare numericIsValid"
  unfolding semverContract_def numericCompare_def numericIsValid_def
  by (auto split: option.splits)

lemma parse_examples:
  "parseNumeric ''v1.0.0'' = Some (1, 0, 0)"
  "parseNumeric ''v1.2.0'' = Some (1, 2, 0)"
  "parseNumeric ''v1.2'' = Some (1, 2, 0)"
  "parseNumeric ''v0.1.0'' = Some (0, 1, 0)"
  "parseNumeric ''v1.10.0'' = Some (1, 10, 0)"
  "parseNumeric ''main'' = None"
  "parseNumeric ''v01.2.0'' = None"
  by (simp_all add: parseNumeric_def isNumber_def isDigit_def numberValue_def)

lemma latest_example:
  "identifyLatestRevisions numericCompare numericIsValid revisionsExample =
     [cachedOf ''foo'' ''v1.0.0'' ''Published'' False,
      cachedOf ''foo'' ''v1.3.0'' ''Draft'' False,
      cachedOf ''foo'' ''v1.2.0'' ''Published'' True,
      cachedOf ''foo'' ''main'' ''Published'' False,
      cachedOf ''foo'' ''v1.2'' ''Published'' False,
      cachedOf ''bar'' ''v0.1.0'' ''Published'' True]"
  by (simp add: revisionsExample_def identifyLatestRevisions_def latestAfter_def latestStep_def
      Let_def numericCompare_def numericIsValid_def parse_examples cachedOf_def revisionOf_def
      PackageRevisionLifecyclePublished_def upt_rec)

theorem identifyLatestRevisions_latest_witness:
  "semverContract numericCompare numericIsValid
   \<and> identifyLatestRevisions numericCompare numericIsValid revisionsExample =
     [cachedOf ''foo'' ''v1.0.0'' ''Published'' False,
      cachedOf ''foo'' ''v1.3.0'' ''Draft'' False,
      cachedOf ''foo'' ''v1.2.0'' ''Published'' True,
      cachedOf ''foo'' ''main'' ''Published'' False,
      cachedOf ''foo'' ''v1.2'' ''Published'' False,
      cachedOf ''bar'' ''v0.1.0'' ''Published'' True]
   \<and> isLatestRevision (identifyLatestRevisions numericCompare numericIsValid revisionsExample ! 2)
   \<and> published (identifyLatestRevisions numericCompare numericIsValid revisionsExample ! 2)
   \<and> numericIsValid
        (Revision (cKey (identifyLatestRevisions numericCompare numericIsValid revisionsExample ! 2)))
   \<and> numericCompare
        (Revision (cKey (identifyLatestRevisions numericCompare numericIsValid revisionsExample ! 4)))
        (Revision (cKey (identifyLatestRevisions numericCompare numericIsValid revisionsExample ! 2)))
        \<le> 0
   \<and> numericCompare
        (Revision (cKey (identifyLatestRevisions numericCompare numericIsValid revisionsExample ! 0)))
        (Revision (cKey (identifyLatestRevisions numericCompare numericIsValid revisionsExample ! 2)))
        < 0"
proof -
  let ?out = "identifyLatestRevisions numericCompare numericIsValid revisionsExample"
  have c: "semverContract numericCompare numericIsValid" by (rule numeric_contract)
  have l: "2 < length ?out" by (simp add: latest_example)
  have f: "isLatestRevision (?out ! 2)" by (simp add: latest_example cachedOf_def)
  note t = identifyLatestRevisions_latest[OF c refl, of revisionsExample]
  note b = t[THEN conjunct2, THEN conjunct2, THEN conjunct2, THEN conjunct1, rule_format, OF l f]
  note g = b[THEN conjunct2, THEN conjunct2, THEN conjunct1, rule_format, of 4]
  note s = b[THEN conjunct2, THEN conjunct2, THEN conjunct2, rule_format, of 0]
  have l4: "4 < length ?out" by (simp add: latest_example)
  have p4: "published (?out ! 4) \<and> Package (cKey (?out ! 4)) = Package (cKey (?out ! 2))"
    by (simp add: latest_example cachedOf_def revisionOf_def PackageRevisionLifecyclePublished_def)
  have l0: "(0::nat) < 2" by simp
  have p0: "published (?out ! 0) \<and> Package (cKey (?out ! 0)) = Package (cKey (?out ! 2))"
    by (simp add: latest_example cachedOf_def revisionOf_def PackageRevisionLifecyclePublished_def)
  from c latest_example f conjunct1[OF b] conjunct1[OF conjunct2[OF b]] g[OF l4 p4] s[OF l0 p0]
  show ?thesis by (intro conjI)
qed

end
